theory Spec2Isabelle
  imports Complex_Main
begin

section \<open>Text: characters, whitespace, lower-casing\<close>

text \<open>
  A Python \<open>str\<close> is modelled as a \<open>string\<close> whose characters are the code points
  0..255 (one \<open>char\<close> per code point, so \<open>length\<close> counts what Python's \<open>len\<close> counts
  on such text). The three character-level library notions the program relies on are written
  out for that range:
  \<^item> \<open>is_space\<close>: the characters matched by \<open>\\s\<close> in a \<open>str\<close> pattern and removed by
    \<open>str.strip()\<close> (9..13, 28..32, 133 and 160);
  \<^item> \<open>lower_char\<close>: \<open>str.lower()\<close> on one character (A..Z, and 192..222 except 215);
  \<^item> \<open>ci_eq\<close>: equality of two characters under \<open>re.IGNORECASE\<close>.
\<close>

definition is_space :: "char \<Rightarrow> bool" where
  "is_space c =
     (let n = (of_char c :: nat)
      in (9 \<le> n \<and> n \<le> 13) \<or> (28 \<le> n \<and> n \<le> 32) \<or> n = 133 \<or> n = 160)"

definition lower_char :: "char \<Rightarrow> char" where
  "lower_char c =
     (let n = (of_char c :: nat)
      in if (65 \<le> n \<and> n \<le> 90) \<or> (192 \<le> n \<and> n \<le> 222 \<and> n \<noteq> 215)
         then char_of (n + 32) else c)"

definition lower :: "string \<Rightarrow> string" where
  "lower s = map lower_char s"

definition ci_eq :: "char \<Rightarrow> char \<Rightarrow> bool" where
  "ci_eq a b = (lower_char a = lower_char b)"

section \<open>The URL pattern and its search\<close>

text \<open>
  \<open>URL_REGEX = re.compile(r"(https?://[^\\s]+)", re.IGNORECASE)\<close>.
  The pattern language is the fragment the program uses: a literal character (matched
  ignoring case), the class \<open>[^\\s]\<close>, \<open>?\<close>, \<open>+\<close> on a single-character item, and
  concatenation. \<open>matches r s\<close> lists the lengths of the prefixes of \<open>s\<close> that \<open>r\<close>
  matches, in the order in which a backtracking matcher tries them (\<open>?\<close> and \<open>+\<close> are
  greedy); the match that \<open>re\<close> reports is the head of that list.
\<close>

datatype atom = Chr char | NotSpace

datatype regex = Atom atom | Opt regex | Plus atom | Seq regex regex

fun atom_ok :: "atom \<Rightarrow> char \<Rightarrow> bool" where
  "atom_ok (Chr a) c = ci_eq a c"
| "atom_ok NotSpace c = (\<not> is_space c)"

fun matches :: "regex \<Rightarrow> string \<Rightarrow> nat list" where
  "matches (Atom a) s = (case s of [] \<Rightarrow> [] | c # _ \<Rightarrow> if atom_ok a c then [1] else [])"
| "matches (Opt r) s = matches r s @ [0]"
| "matches (Plus a) s = rev [1 ..< Suc (length (takeWhile (atom_ok a) s))]"
| "matches (Seq r1 r2) s =
     concat (map (\<lambda>n. map (\<lambda>m. n + m) (matches r2 (drop n s))) (matches r1 s))"

fun Str :: "string \<Rightarrow> regex \<Rightarrow> regex" where
  "Str [] r = r"
| "Str (c # cs) r = Seq (Atom (Chr c)) (Str cs r)"

definition URL_REGEX :: regex where
  "URL_REGEX = Str ''http'' (Seq (Opt (Atom (Chr CHR ''s''))) (Str ''://'' (Plus NotSpace)))"

text \<open>
  \<open>pattern.search(text)\<close>: the start positions are tried from the left, and the first one
  at which the pattern matches gives the match, as (start, length).
\<close>

fun search :: "regex \<Rightarrow> nat \<Rightarrow> string \<Rightarrow> (nat \<times> nat) option" where
  "search r i [] = (case matches r [] of [] \<Rightarrow> None | n # _ \<Rightarrow> Some (i, n))"
| "search r i (c # t) =
     (case matches r (c # t) of [] \<Rightarrow> search r (Suc i) t | n # _ \<Rightarrow> Some (i, n))"

definition pick_first_url :: "string \<Rightarrow> string option" where
  "pick_first_url text =
     (if text = [] then None
      else case search URL_REGEX 0 text of
             None \<Rightarrow> None
           | Some (i, n) \<Rightarrow> Some (take n (drop i text)))"


section \<open>Configuration\<close>

text \<open>
  An exception is identified with its text (what \<open>str(e)\<close> gives), since that is all the
  program ever reads from one. Only instances of \<open>Exception\<close> are meant: these are what
  \<open>except Exception\<close> catches.
\<close>

type_synonym exn = string

record config =
  WHITELIST :: "int set"
  MAX_SIZE_MB :: int

text \<open>\<open>str.split(sep)\<close> with a one-character separator, and \<open>str.strip()\<close>.\<close>

fun split_on :: "char \<Rightarrow> string \<Rightarrow> string list" where
  "split_on sep [] = [[]]"
| "split_on sep (c # cs) =
     (if c = sep then [] # split_on sep cs
      else (c # hd (split_on sep cs)) # tl (split_on sep cs))"

definition strip :: "string \<Rightarrow> string" where
  "strip s = rev (dropWhile is_space (rev (dropWhile is_space s)))"

text \<open>
  \<open>WHITELIST = set(int(cid.strip()) for cid in os.environ.get("WHITELIST", "").split(",")
  if cid.strip())\<close>. The built-in \<open>int\<close> is a parameter \<open>py_int\<close>, \<open>None\<close> where it
  raises \<open>ValueError\<close>, which then ends the start-up. The environment variable is
  \<open>None\<close> when unset.
\<close>

fun parse_ids :: "(string \<Rightarrow> int option) \<Rightarrow> string list \<Rightarrow> exn + int list" where
  "parse_ids py_int [] = Inr []"
| "parse_ids py_int (cid # cids) =
     (if strip cid = [] then parse_ids py_int cids
      else case py_int (strip cid) of
             None \<Rightarrow> Inl ''ValueError''
           | Some i \<Rightarrow> (case parse_ids py_int cids of
                          Inl e \<Rightarrow> Inl e
                        | Inr is \<Rightarrow> Inr (i # is)))"

definition load_whitelist :: "(string \<Rightarrow> int option) \<Rightarrow> string option \<Rightarrow> exn + int set" where
  "load_whitelist py_int var =
     (case parse_ids py_int (split_on CHR '','' (case var of None \<Rightarrow> [] | Some v \<Rightarrow> v)) of
        Inl e \<Rightarrow> Inl e
      | Inr is \<Rightarrow> Inr (set is))"

definition VIDEO_DOMAINS :: "string list" where
  "VIDEO_DOMAINS =
     [''youtube.com'', ''m.youtube.com'', ''youtu.be'', ''youtube-nocookie.com'',
      ''tiktok.com'', ''vm.tiktok.com'',
      ''instagram.com'', ''cdninstagram.com'',
      ''x.com'', ''twitter.com'', ''fxtwitter.com'', ''vxtwitter.com'', ''video.twimg.com'',
      ''facebook.com'', ''m.facebook.com'', ''fb.watch'',
      ''vimeo.com'', ''player.vimeo.com'',
      ''twitch.tv'', ''clips.twitch.tv'',
      ''reddit.com'', ''v.redd.it'',
      ''streamable.com'',
      ''dailymotion.com'', ''dai.ly'',
      ''drive.google.com'']"

section \<open>Sizes\<close>

text \<open>
  \<open>bytes_to_mb(b) = b / (1024 * 1024)\<close>. Python's quotient is a float; for a byte count
  below \<open>2 ^ 53\<close> that float is the exact quotient (the divisor is a power of two), and
  Python compares a float with an \<open>int\<close> exactly, so the model computes in the rationals.
  Byte counts (\<open>st_size\<close>, sums of \<open>len(chunk)\<close>) are natural numbers.
\<close>

definition bytes_to_mb :: "nat \<Rightarrow> rat" where
  "bytes_to_mb b = of_nat b / (1024 * 1024)"

text \<open>
  The format \<open>{x:.1f}\<close> of a non-negative value: the nearest multiple of one tenth, a tie
  going to the even one, printed with one digit after the point.
\<close>

fun show_nat :: "nat \<Rightarrow> string" where
  "show_nat n =
     (if n < 10 then [''0123456789'' ! n]
      else show_nat (n div 10) @ [''0123456789'' ! (n mod 10)])"

definition round_half_even :: "rat \<Rightarrow> int" where
  "round_half_even q =
     (let f = \<lfloor>q\<rfloor>; r = q - of_int f
      in if r < 1 / 2 then f else if 1 / 2 < r then f + 1 else if even f then f else f + 1)"

definition fmt_1f :: "rat \<Rightarrow> string" where
  "fmt_1f x =
     (let t = nat (round_half_even (x * 10))
      in show_nat (t div 10) @ ''.'' @ show_nat (t mod 10))"

section \<open>The domain tests\<close>

fun starts_with :: "string \<Rightarrow> string \<Rightarrow> bool" where
  "starts_with s [] = True"
| "starts_with [] (p # ps) = False"
| "starts_with (c # s) (p # ps) = (c = p \<and> starts_with s ps)"

definition ends_with :: "string \<Rightarrow> string \<Rightarrow> bool" where
  "ends_with s suf = starts_with (rev s) (rev suf)"

text \<open>\<open>d in s\<close> on strings: \<open>d\<close> occurs in \<open>s\<close> as a contiguous substring.\<close>

fun contains :: "string \<Rightarrow> string \<Rightarrow> bool" where
  "contains [] d = (d = [])"
| "contains (c # s) d = (starts_with (c # s) d \<or> contains s d)"

text \<open>
  \<open>host_matches\<close> (defined in the program, called nowhere). \<open>urlparse(url).hostname\<close>
  is the library's; it is the parameter \<open>hostname_of\<close>.
\<close>

definition host_allowed :: "string \<Rightarrow> bool" where
  "host_allowed host =
     list_ex (\<lambda>d. host = d \<or> ends_with host (''.'' @ d)) (map lower VIDEO_DOMAINS)"

definition host_matches :: "(string \<Rightarrow> string option) \<Rightarrow> string \<Rightarrow> bool" where
  "host_matches hostname_of url =
     (let host = lower (case hostname_of url of None \<Rightarrow> [] | Some h \<Rightarrow> h);
          allowed = host_allowed host
      in if \<not> allowed then False else True)"

text \<open>
  The gate in \<open>handle_message\<close>:
  \<^verbatim>\<open>for domain in VIDEO_DOMAINS:
    if domain in url.lower(): break
else: return\<close>
  \<open>domain_loop\<close> is \<open>True\<close> when the loop leaves by \<open>break\<close>.
\<close>

fun domain_loop :: "string list \<Rightarrow> string \<Rightarrow> bool" where
  "domain_loop [] url = False"
| "domain_loop (domain # rest) url =
     (if contains (lower url) domain then True else domain_loop rest url)"

section \<open>The streaming downloader\<close>

text \<open>
  \<open>http_get_to_file\<close>. What the network and the disk do is given by a \<open>get_outcome\<close>:
  \<open>session.get\<close> or \<open>raise_for_status\<close> may raise, opening the output file may raise, and
  then the body arrives as a sequence of events: a chunk whose write succeeds, a chunk whose
  write would raise, or a failing read. \<open>iter_chunked(1 << 14)\<close> yields chunks of at most
  \<open>CHUNK_SIZE\<close> bytes. The output file is \<open>None\<close> while it does not exist, and its
  content otherwise; \<open>open("wb")\<close> creates it empty.
\<close>

datatype 'b event = Chunk "'b list" | ChunkWriteFails "'b list" exn | ReadFails exn

datatype 'b get_outcome =
    GetRaises exn
  | OpenRaises exn
  | Body "'b event list"

definition CHUNK_SIZE :: nat where
  "CHUNK_SIZE = push_bit 14 1"

fun consume :: "int \<Rightarrow> nat \<Rightarrow> 'b list \<Rightarrow> 'b event list \<Rightarrow> (bool \<times> nat) \<times> 'b list" where
  "consume limit sz f [] = ((True, sz), f)"
| "consume limit sz f (ReadFails e # evs) = ((False, sz), f)"
| "consume limit sz f (Chunk chunk # evs) =
     (if chunk = [] then consume limit sz f evs
      else if bytes_to_mb (sz + length chunk) > of_int limit
           then ((False, sz + length chunk), f)
           else consume limit (sz + length chunk) (f @ chunk) evs)"
| "consume limit sz f (ChunkWriteFails chunk e # evs) =
     (if chunk = [] then consume limit sz f evs
      else if bytes_to_mb (sz + length chunk) > of_int limit
           then ((False, sz + length chunk), f)
           else ((False, sz + length chunk), f))"

definition http_get_to_file ::
    "config \<Rightarrow> 'b get_outcome \<Rightarrow> 'b list option \<Rightarrow> (bool \<times> nat) \<times> 'b list option" where
  "http_get_to_file cfg out file =
     (case out of
        GetRaises e \<Rightarrow> ((False, 0), file)
      | OpenRaises e \<Rightarrow> ((False, 0), file)
      | Body evs \<Rightarrow> (case consume (MAX_SIZE_MB cfg) 0 [] evs of (r, f) \<Rightarrow> (r, Some f)))"


section \<open>The message handler\<close>

text \<open>
  What the handler does to the outside is recorded as a list of actions, in order. A call
  that may raise carries its outcome: \<open>None\<close> when it returned, \<open>Some e\<close> when it raised
  \<open>e\<close>. The texts are
  \<^item> \<open>NotAllowed\<close>: "This chat is not allowed to use this bot." (after a warning sign);
  \<^item> \<open>CouldntDownload\<close>: "Couldn't download this link. It may be unsupported or blocked."
    (after a cross mark);
  \<^item> \<open>TooLarge s m\<close>: "File is too large (\<open>s\<close> MB). Limit is \<open>m\<close> MB." (after a warning
    sign), with \<open>s\<close> the text of \<open>{bytes_to_mb(size):.1f}\<close> and \<open>m\<close> the value of
    \<open>MAX_SIZE_MB\<close>;
  \<^item> \<open>UploadFailed e\<close>: "Upload failed: \<open>e\<close>" (after a cross mark);
  and the log lines \<open>RejectedChat cid\<close>: "Rejected message from non-whitelisted chat
  \<open>cid\<close>", \<open>VideoSendFailed e\<close>: "Failed to send as video: \<open>e\<close>".
\<close>

datatype text_msg = NotAllowed | CouldntDownload | TooLarge string int | UploadFailed exn

datatype log_msg = RejectedChat "int option" | VideoSendFailed exn

text \<open>A file is named by its directory and its name in it.\<close>

type_synonym path = "string \<times> string"

datatype action =
    ReplyText text_msg "exn option"
  | LogWarning log_msg
  | SendChatAction int "exn option"
  | MkTemp string
  | Head string
  | Extract string string
  | ReplyVideo path "exn option"
  | ReplyDocument path "exn option"
  | RmTemp string

text \<open>
  The update: \<open>effective_chat.id\<close> (\<open>None\<close> without an effective chat), and the text and
  caption of the effective message.
\<close>

record update =
  chat_id :: "int option"
  msg_text :: "string option"
  msg_caption :: "string option"

text \<open>
  The environment of one invocation fixes what each outside call does: whether
  \<open>reply_text\<close>, \<open>send_chat_action\<close>, \<open>reply_video\<close> and \<open>reply_document\<close> raise (each
  is called at most once on any path; opening the file to send is part of the upload
  attempt), the name \<open>TemporaryDirectory\<close> picks, and the run of the extraction backend:
  the files it leaves in the output directory (name and size), whether it raises, and the
  name \<open>prepare_filename\<close> gives (\<open>None\<close> for a false value).
\<close>

record env =
  reply_text_raises :: "exn option"
  chat_action_raises :: "exn option"
  reply_video_raises :: "exn option"
  reply_document_raises :: "exn option"
  tmp_name :: string
  written :: "string \<rightharpoonup> nat"
  extract_raises :: "exn option"
  prepared :: "string option"

text \<open>The file system: the directories that exist, and the size of each file.\<close>

record world =
  dirs :: "string set"
  files :: "path \<rightharpoonup> nat"

definition reply_text :: "env \<Rightarrow> text_msg \<Rightarrow> (exn + unit) \<times> action list" where
  "reply_text ev m =
     ((case reply_text_raises ev of None \<Rightarrow> Inr () | Some e \<Rightarrow> Inl e),
      [ReplyText m (reply_text_raises ev)])"

text \<open>
  \<open>reject_if_not_whitelisted\<close>: the reply and the log line are inside one \<open>try\<close>, whose
  handler is \<open>pass\<close>. \<open>None not in WHITELIST\<close> holds for every set of integers.
\<close>

definition reject_if_not_whitelisted ::
    "config \<Rightarrow> env \<Rightarrow> update \<Rightarrow> (exn + bool) \<times> action list" where
  "reject_if_not_whitelisted cfg ev upd =
     (let cid = chat_id upd
      in if (case cid of None \<Rightarrow> True | Some c \<Rightarrow> c \<notin> WHITELIST cfg)
         then (case reply_text ev NotAllowed of
                 (Inr _, t) \<Rightarrow> (Inr True, t @ [LogWarning (RejectedChat cid)])
               | (Inl e, t) \<Rightarrow> (Inr True, t))
         else (Inr False, []))"

definition send_typing :: "env \<Rightarrow> int \<Rightarrow> (exn + unit) \<times> action list" where
  "send_typing ev c =
     (case chat_action_raises ev of
        None \<Rightarrow> (Inr (), [SendChatAction c None])
      | Some e \<Rightarrow> (Inr (), [SendChatAction c (Some e)]))"

text \<open>
  \<open>ytdlp_download\<close>: the backend runs (\<open>extract_info\<close> with \<open>download=True\<close>) and leaves
  its files in \<open>out_dir\<close>; if it raised, so does the function; otherwise the prepared name
  is returned if it is a true value and that file exists.
\<close>

definition backend_run :: "env \<Rightarrow> string \<Rightarrow> world \<Rightarrow> world" where
  "backend_run ev out_dir w =
     w\<lparr>files := (\<lambda>(d, n). if d = out_dir
                            then (case written ev n of Some sz \<Rightarrow> Some sz | None \<Rightarrow> files w (d, n))
                            else files w (d, n))\<rparr>"

definition ytdlp_download :: "env \<Rightarrow> string \<Rightarrow> string \<Rightarrow> world \<Rightarrow> (exn + path option) \<times> world" where
  "ytdlp_download ev url out_dir w =
     (let w' = backend_run ev out_dir w
      in case extract_raises ev of
           Some e \<Rightarrow> (Inl e, w')
         | None \<Rightarrow> (case prepared ev of
                      None \<Rightarrow> (Inr None, w')
                    | Some n \<Rightarrow> if files w' (out_dir, n) \<noteq> None
                                then (Inr (Some (out_dir, n)), w')
                                else (Inr None, w')))"

text \<open>
  Lines 171 to 179 of \<open>handle_message\<close>: the result is the downloaded file with its size
  (\<open>downloaded = True\<close>), or \<open>None\<close> (\<open>downloaded = False\<close>); an exception of the backend,
  or of \<open>stat\<close>, is caught there.
\<close>

definition download :: "env \<Rightarrow> string \<Rightarrow> string \<Rightarrow> world \<Rightarrow> (path \<times> nat) option \<times> world" where
  "download ev url tmpdir w =
     (case ytdlp_download ev url tmpdir w of
        (Inl e, w') \<Rightarrow> (None, w')
      | (Inr None, w') \<Rightarrow> (None, w')
      | (Inr (Some fp), w') \<Rightarrow>
          (case files w' fp of None \<Rightarrow> (None, w') | Some sz \<Rightarrow> (Some (fp, sz), w')))"

text \<open>Lines 191 to 207: video first, then document, then the text of the failure.\<close>

definition deliver :: "env \<Rightarrow> path \<Rightarrow> (exn + unit) \<times> action list" where
  "deliver ev fp =
     (case reply_video_raises ev of
        None \<Rightarrow> (Inr (), [ReplyVideo fp None])
      | Some e \<Rightarrow>
          (let t = [ReplyVideo fp (Some e), LogWarning (VideoSendFailed e)]
           in case reply_document_raises ev of
                None \<Rightarrow> (Inr (), t @ [ReplyDocument fp None])
              | Some e' \<Rightarrow>
                  (case reply_text ev (UploadFailed e') of
                     (r, t') \<Rightarrow> (r, t @ [ReplyDocument fp (Some e')] @ t'))))"

text \<open>
  The body of \<open>with tempfile.TemporaryDirectory() as td\<close> (lines 159 to 207). The \<open>HEAD\<close>
  request never raises towards the handler, and its result, like the extension of the
  URL, is not used afterwards.
\<close>

definition in_scratch ::
    "config \<Rightarrow> env \<Rightarrow> string \<Rightarrow> string \<Rightarrow> world \<Rightarrow> (exn + unit) \<times> action list \<times> world" where
  "in_scratch cfg ev url tmpdir w =
     (case download ev url tmpdir w of
        (None, w') \<Rightarrow>
          (case reply_text ev CouldntDownload of
             (r, t) \<Rightarrow> (r, [Head url, Extract url tmpdir] @ t, w'))
      | (Some (file_path, sz), w') \<Rightarrow>
          if bytes_to_mb sz > of_int (MAX_SIZE_MB cfg)
          then (case reply_text ev (TooLarge (fmt_1f (bytes_to_mb sz)) (MAX_SIZE_MB cfg)) of
                  (r, t) \<Rightarrow> (r, [Head url, Extract url tmpdir] @ t, w'))
          else (case deliver ev file_path of
                  (r, t) \<Rightarrow> (r, [Head url, Extract url tmpdir] @ t, w')))"

text \<open>
  \<open>TemporaryDirectory\<close> as a context manager: the directory is created on entry; on exit,
  whether the body returned or raised, it is removed with everything in it.
\<close>

definition rmtree :: "string \<Rightarrow> world \<Rightarrow> world" where
  "rmtree td w =
     w\<lparr>dirs := dirs w - {td},
       files := (\<lambda>(d, n). if d = td then None else files w (d, n))\<rparr>"

definition with_tempdir ::
    "string \<Rightarrow> (string \<Rightarrow> world \<Rightarrow> (exn + unit) \<times> action list \<times> world) \<Rightarrow> world
      \<Rightarrow> (exn + unit) \<times> action list \<times> world" where
  "with_tempdir td body w =
     (case body td (w\<lparr>dirs := insert td (dirs w)\<rparr>) of
        (r, t, w') \<Rightarrow> (r, [MkTemp td] @ t @ [RmTemp td], rmtree td w'))"

definition message_text :: "update \<Rightarrow> string" where
  "message_text upd =
     (case msg_text upd of
        Some t \<Rightarrow> if t \<noteq> [] then t else (case msg_caption upd of Some c \<Rightarrow> c | None \<Rightarrow> [])
      | None \<Rightarrow> (case msg_caption upd of Some c \<Rightarrow> c | None \<Rightarrow> []))"

definition handle_message ::
    "config \<Rightarrow> env \<Rightarrow> update \<Rightarrow> world \<Rightarrow> (exn + unit) \<times> action list \<times> world" where
  "handle_message cfg ev upd w =
     (case reject_if_not_whitelisted cfg ev upd of
        (Inl e, t0) \<Rightarrow> (Inl e, t0, w)
      | (Inr True, t0) \<Rightarrow> (Inr (), t0, w)
      | (Inr False, t0) \<Rightarrow>
          (case pick_first_url (message_text upd) of
             None \<Rightarrow> (Inr (), t0, w)
           | Some url \<Rightarrow>
               if url = [] then (Inr (), t0, w)
               else if \<not> domain_loop VIDEO_DOMAINS url then (Inr (), t0, w)
               else (case chat_id upd of
                       None \<Rightarrow> (Inl ''AttributeError'', t0, w)
                     | Some c \<Rightarrow>
                         (case send_typing ev c of
                            (Inl e, t1) \<Rightarrow> (Inl e, t0 @ t1, w)
                          | (Inr _, t1) \<Rightarrow>
                              (case with_tempdir (tmp_name ev) (in_scratch cfg ev url) w of
                                 (r, t2, w') \<Rightarrow> (r, t0 @ t1 @ t2, w'))))))"


section \<open>Notions used in the statements\<close>

text \<open>
  \<open>url_shaped u\<close> says in the words of the specification that \<open>u\<close> matches the URL
  pattern: \<open>http://\<close> or \<open>https://\<close> in any letter case, then one or more characters that
  are not whitespace. \<open>ci_prefix\<close>, \<open>scheme_len\<close> and \<open>nonspace_run\<close> serve the proofs.
\<close>

fun ci_prefix :: "string \<Rightarrow> string \<Rightarrow> bool" where
  "ci_prefix [] s = True"
| "ci_prefix (c # p) [] = False"
| "ci_prefix (c # p) (x # s) = (ci_eq c x \<and> ci_prefix p s)"

definition nonspace_run :: "string \<Rightarrow> nat" where
  "nonspace_run s = length (takeWhile (\<lambda>c. \<not> is_space c) s)"

definition scheme_len :: "string \<Rightarrow> nat option" where
  "scheme_len s =
     (if ci_prefix ''https://'' s then Some 8
      else if ci_prefix ''http://'' s then Some 7 else None)"

definition url_shaped :: "string \<Rightarrow> bool" where
  "url_shaped u =
     (\<exists>scheme rest. u = scheme @ rest
        \<and> (lower scheme = ''http://'' \<or> lower scheme = ''https://'')
        \<and> rest \<noteq> [] \<and> (\<forall>c \<in> set rest. \<not> is_space c))"

text \<open>
  \<open>accepted cfg upd c url\<close>: the update comes from the whitelisted chat \<open>c\<close>, \<open>url\<close> is
  the URL picked from its text, and the domain loop leaves by \<open>break\<close>; these are the
  updates for which the handler creates its scratch directory. \<open>scratch_world\<close> is the file
  system once that directory exists. \<open>sent\<close> holds of the three replies that close a
  delivery when the call returned.
\<close>

definition accepted :: "config \<Rightarrow> update \<Rightarrow> int \<Rightarrow> string \<Rightarrow> bool" where
  "accepted cfg upd c url =
     (chat_id upd = Some c \<and> c \<in> WHITELIST cfg
      \<and> pick_first_url (message_text upd) = Some url \<and> url \<noteq> []
      \<and> domain_loop VIDEO_DOMAINS url)"

definition scratch_world :: "env \<Rightarrow> world \<Rightarrow> world" where
  "scratch_world ev w = w\<lparr>dirs := insert (tmp_name ev) (dirs w)\<rparr>"

definition sent :: "action \<Rightarrow> bool" where
  "sent a =
     (case a of
        ReplyVideo _ None \<Rightarrow> True
      | ReplyDocument _ None \<Rightarrow> True
      | ReplyText (UploadFailed _) None \<Rightarrow> True
      | _ \<Rightarrow> False)"

text \<open>
  A configuration, an update, an environment and a file system on which the statements are
  instantiated: chat 5 is whitelisted, the limit is 50 MB, the message carries a
  \<open>youtu.be\<close> link, and the backend leaves \<open>clip.mp4\<close> in the scratch directory.
\<close>

definition sample_cfg :: config where
  "sample_cfg = \<lparr>WHITELIST = {5}, MAX_SIZE_MB = 50\<rparr>"

definition sample_update :: update where
  "sample_update =
     \<lparr>chat_id = Some 5, msg_text = Some ''check this out https://youtu.be/abc123'',
      msg_caption = None\<rparr>"

definition sample_env :: env where
  "sample_env =
     \<lparr>reply_text_raises = None, chat_action_raises = None, reply_video_raises = None,
      reply_document_raises = None, tmp_name = ''/tmp/tmpa1'',
      written = [''clip.mp4'' \<mapsto> 1000], extract_raises = None,
      prepared = Some ''clip.mp4''\<rparr>"

definition empty_world :: world where
  "empty_world = \<lparr>dirs = {}, files = Map.empty\<rparr>"

text \<open>
  \<open>total cs\<close> is the number of bytes in the chunks \<open>cs\<close>, and \<open>over limit n\<close> is the
  program's test \<open>bytes_to_mb(n) > MAX_SIZE_MB\<close>.
\<close>

definition total :: "'b list list \<Rightarrow> nat" where
  "total cs = sum_list (map length cs)"

definition over :: "int \<Rightarrow> nat \<Rightarrow> bool" where
  "over limit n = (bytes_to_mb n > of_int limit)"

section \<open>The URL extractor\<close>

lemma ci_prefix_length: "ci_prefix p s \<Longrightarrow> length p \<le> length s"
  by (induction p s rule: ci_prefix.induct) auto

lemma ci_prefix_append:
  "length p = n \<Longrightarrow> ci_prefix (p @ q) s = (ci_prefix p s \<and> ci_prefix q (drop n s))"
  by (induction p s arbitrary: n rule: ci_prefix.induct) auto

lemma ci_prefix_lower:
  "length p = n \<Longrightarrow> ci_prefix p s = (n \<le> length s \<and> lower (take n s) = lower p)"
  by (induction p s arbitrary: n rule: ci_prefix.induct) (auto simp: lower_def ci_eq_def)

lemma map_add_0 [simp]: "map ((+) (0::nat)) xs = xs"
  by (induction xs) auto

lemma matches_Str:
  "length p = n \<Longrightarrow> matches (Str p r) s =
     (if ci_prefix p s then map (\<lambda>m. n + m) (matches r (drop n s)) else [])"
proof (induction p arbitrary: s n)
  case Nil
  then show ?case by simp
next
  case (Cons c p)
  then obtain k where k: "n = Suc k" "length p = k" by auto
  show ?case
  proof (cases s)
    case Nil
    then show ?thesis by simp
  next
    case (Cons x xs)
    then show ?thesis using k Cons.IH [OF k(2), of xs] by (simp add: comp_def)
  qed
qed

declare Str.simps [simp del]

lemma atom_ok_NotSpace: "atom_ok NotSpace = (\<lambda>c. \<not> is_space c)"
  by (rule ext) simp

lemma matches_tail:
  "matches (Str ''://'' (Plus NotSpace)) s =
     (if ci_prefix ''://'' s
      then map (\<lambda>m. 3 + m) (rev [1 ..< Suc (nonspace_run (drop 3 s))]) else [])"
  by (simp add: matches_Str [where n = 3] nonspace_run_def atom_ok_NotSpace del: ci_prefix.simps upt_Suc)

lemma lower_s: "lower_char CHR ''s'' \<noteq> lower_char CHR '':''"
  by (simp add: lower_char_def)

lemma https_split:
  "ci_prefix ''https://'' s =
     (ci_prefix ''http'' s \<and> (\<exists>x xs. drop 4 s = x # xs \<and> ci_eq CHR ''s'' x \<and> ci_prefix ''://'' xs))"
proof -
  have "ci_prefix ''https://'' s = (ci_prefix ''http'' s \<and> ci_prefix ''s://'' (drop 4 s))"
    using ci_prefix_append [of "''http''" 4 "''s://''" s] by simp
  moreover have "ci_prefix ''s://'' t = (\<exists>x xs. t = x # xs \<and> ci_eq CHR ''s'' x \<and> ci_prefix ''://'' xs)" for t
    by (cases t) simp_all
  ultimately show ?thesis by simp
qed

lemma http_split:
  "ci_prefix ''http://'' s = (ci_prefix ''http'' s \<and> ci_prefix ''://'' (drop 4 s))"
  using ci_prefix_append [of "''http''" 4 "''://''" s] by simp

lemma s_not_colon: "ci_eq CHR ''s'' x \<Longrightarrow> \<not> ci_prefix ''://'' (x # xs)"
  using lower_s by (auto simp: ci_eq_def)

lemma matches_opt_chr:
  "matches (Seq (Opt (Atom (Chr c))) r) t =
     (case t of [] \<Rightarrow> [] | x # xs \<Rightarrow> if ci_eq c x then map Suc (matches r xs) else []) @ matches r t"
  by (cases t) (simp_all add: comp_def)

lemma matches_URL:
  "matches URL_REGEX s =
     (case scheme_len s of
        None \<Rightarrow> []
      | Some k \<Rightarrow> map (\<lambda>m. k + m) (rev [1 ..< Suc (nonspace_run (drop k s))]))"
proof (cases "ci_prefix ''http'' s")
  case False
  then show ?thesis
    by (simp add: URL_REGEX_def matches_Str [where n = 4] scheme_len_def https_split http_split
             del: ci_prefix.simps)
next
  case True
  note h = this
  have step: "matches URL_REGEX s =
                map (\<lambda>m. 4 + m) (matches (Seq (Opt (Atom (Chr CHR ''s''))) (Str ''://'' (Plus NotSpace))) (drop 4 s))"
    using h by (simp add: URL_REGEX_def matches_Str [where n = 4] del: ci_prefix.simps)
  show ?thesis
  proof (cases "drop 4 s")
    case Nil
    with h show ?thesis unfolding step
      by (simp add: matches_opt_chr matches_tail scheme_len_def https_split http_split
               del: ci_prefix.simps upt_Suc)
  next
    case (Cons x xs)
    have "drop 3 (drop 4 s) = drop 3 (x # xs)" "drop 4 (drop 4 s) = drop 4 (x # xs)"
      using Cons by simp_all
    then have d: "drop 3 xs = drop 8 s" "drop 3 (x # xs) = drop 7 s"
      by (simp_all add: numeral_eq_Suc)
    show ?thesis
    proof (cases "ci_eq CHR ''s'' x")
      case True
      with h Cons s_not_colon [OF True, of xs] d show ?thesis unfolding step
        by (simp add: matches_opt_chr matches_tail scheme_len_def https_split http_split comp_def
                 del: ci_prefix.simps upt_Suc)
    next
      case False
      with h Cons d show ?thesis unfolding step
        by (simp add: matches_opt_chr matches_tail scheme_len_def https_split http_split comp_def
                 del: ci_prefix.simps upt_Suc)
    qed
  qed
qed


lemma scheme_exclusive: "ci_prefix ''https://'' s \<Longrightarrow> \<not> ci_prefix ''http://'' s"
  unfolding https_split http_split using s_not_colon by auto

lemma lower_schemes: "lower ''http://'' = ''http://''" "lower ''https://'' = ''https://''"
  by (simp_all add: lower_def lower_char_def)

lemma scheme_len_lower:
  "scheme_len s = Some k \<longleftrightarrow>
     k \<le> length s \<and> ((k = 7 \<and> lower (take k s) = ''http://'') \<or> (k = 8 \<and> lower (take k s) = ''https://''))"
proof -
  have a: "ci_prefix ''http://'' s = (7 \<le> length s \<and> lower (take 7 s) = ''http://'')"
    using ci_prefix_lower [of "''http://''" 7 s] by (simp add: lower_schemes)
  have b: "ci_prefix ''https://'' s = (8 \<le> length s \<and> lower (take 8 s) = ''https://'')"
    using ci_prefix_lower [of "''https://''" 8 s] by (simp add: lower_schemes)
  show ?thesis
    using scheme_exclusive [of s] unfolding scheme_len_def a b by auto
qed

lemma hd_countdown: "1 \<le> r \<Longrightarrow> rev [1 ..< Suc r] = r # rev [1 ..< r]"
  by simp

lemma matches_URL_Cons:
  "matches URL_REGEX s = n # ns \<longleftrightarrow>
     (\<exists>k. scheme_len s = Some k \<and> 1 \<le> nonspace_run (drop k s)
          \<and> n = k + nonspace_run (drop k s)
          \<and> ns = map (\<lambda>m. k + m) (rev [1 ..< nonspace_run (drop k s)]))"
proof (cases "scheme_len s")
  case None
  then show ?thesis by (simp add: matches_URL)
next
  case (Some k)
  show ?thesis
  proof (cases "1 \<le> nonspace_run (drop k s)")
    case True
    then show ?thesis using Some by (auto simp add: matches_URL)
  next
    case False
    then show ?thesis using Some by (simp add: matches_URL)
  qed
qed

lemma matches_URL_shape:
  assumes "matches URL_REGEX s = n # ns"
  shows "n \<le> length s \<and> url_shaped (take n s) \<and> (drop n s = [] \<or> is_space (hd (drop n s)))"
proof -
  let ?P = "\<lambda>c. \<not> is_space c"
  from assms obtain k where k: "scheme_len s = Some k" "1 \<le> nonspace_run (drop k s)"
      "n = k + nonspace_run (drop k s)"
    unfolding matches_URL_Cons by blast
  have kl: "k \<le> length s" and sch: "lower (take k s) = ''http://'' \<or> lower (take k s) = ''https://''"
    using k(1) unfolding scheme_len_lower by auto
  have run: "take (nonspace_run (drop k s)) (drop k s) = takeWhile ?P (drop k s)"
    unfolding nonspace_run_def by (rule takeWhile_eq_take [symmetric])
  have runle: "nonspace_run (drop k s) \<le> length (drop k s)"
    unfolding nonspace_run_def by (rule length_takeWhile_le)
  have tk: "take n s = take k s @ takeWhile ?P (drop k s)"
    unfolding k(3) using run by (simp add: take_add)
  have ne: "takeWhile ?P (drop k s) \<noteq> []"
    using k(2) unfolding nonspace_run_def by auto
  have "url_shaped (take n s)"
    unfolding url_shaped_def tk using sch ne by (blast dest: set_takeWhileD)
  moreover have "n \<le> length s" using runle kl unfolding k(3) by simp
  moreover have "drop n s = dropWhile ?P (drop k s)"
  proof -
    have "drop n s = drop (nonspace_run (drop k s)) (drop k s)"
      unfolding k(3) by (simp add: add.commute)
    also have "\<dots> = dropWhile ?P (drop k s)"
      unfolding nonspace_run_def by (rule dropWhile_eq_drop [symmetric])
    finally show ?thesis .
  qed
  then have "drop n s = [] \<or> is_space (hd (drop n s))"
    using hd_dropWhile [of ?P "drop k s"] by auto
  ultimately show ?thesis by simp
qed

lemma url_shaped_matches:
  assumes "url_shaped u"
  shows "matches URL_REGEX (u @ post) \<noteq> []"
proof -
  let ?P = "\<lambda>c. \<not> is_space c"
  from assms obtain scheme rest where u: "u = scheme @ rest"
      and sch: "lower scheme = ''http://'' \<or> lower scheme = ''https://''"
      and rest: "rest \<noteq> []" "\<forall>c \<in> set rest. ?P c"
    unfolding url_shaped_def by blast
  define k where "k = length scheme"
  have len: "k = 7 \<or> k = 8" and klen: "(k = 7 \<and> lower scheme = ''http://'') \<or> (k = 8 \<and> lower scheme = ''https://'')"
    using sch unfolding k_def lower_def by (auto dest: arg_cong [where f = length])
  have "scheme_len (u @ post) = Some k"
    unfolding scheme_len_lower using klen by (auto simp: u k_def)
  moreover have "drop k (u @ post) = rest @ post" by (simp add: u k_def)
  moreover have "takeWhile ?P (rest @ post) = rest @ takeWhile ?P post"
    using rest(2) by (simp add: takeWhile_append2)
  then have "1 \<le> nonspace_run (rest @ post)"
    using rest(1) unfolding nonspace_run_def by (cases rest) auto
  ultimately show ?thesis
    using matches_URL_Cons [of "u @ post"] by (cases "matches URL_REGEX (u @ post)") auto
qed

lemma search_None_iff:
  "search r i s = None \<longleftrightarrow> (\<forall>k \<le> length s. matches r (drop k s) = [])"
proof (induction s arbitrary: i)
  case Nil
  show ?case by (simp split: list.splits)
next
  case (Cons c t)
  have "(\<forall>k \<le> length (c # t). matches r (drop k (c # t)) = []) \<longleftrightarrow>
        matches r (c # t) = [] \<and> (\<forall>k \<le> length t. matches r (drop k t) = [])"
  proof
    assume a: "\<forall>k \<le> length (c # t). matches r (drop k (c # t)) = []"
    have "matches r (c # t) = []" using a [rule_format, of 0] by simp
    moreover have "matches r (drop k t) = []" if "k \<le> length t" for k
      using a [rule_format, of "Suc k"] that by simp
    ultimately show "matches r (c # t) = [] \<and> (\<forall>k \<le> length t. matches r (drop k t) = [])"
      by blast
  next
    assume b: "matches r (c # t) = [] \<and> (\<forall>k \<le> length t. matches r (drop k t) = [])"
    show "\<forall>k \<le> length (c # t). matches r (drop k (c # t)) = []"
    proof (intro allI impI)
      fix k assume "k \<le> length (c # t)"
      then show "matches r (drop k (c # t)) = []" using b by (cases k) auto
    qed
  qed
  then show ?case using Cons.IH by (simp split: list.splits)
qed

lemma search_Some:
  "search r i s = Some (j, n) \<Longrightarrow>
     \<exists>k \<le> length s. j = i + k \<and> (\<exists>ns. matches r (drop k s) = n # ns)
        \<and> (\<forall>k' < k. matches r (drop k' s) = [])"
proof (induction s arbitrary: i)
  case Nil
  then show ?case by (simp split: list.splits)
next
  case (Cons c t)
  show ?case
  proof (cases "matches r (c # t)")
    case Nil
    with Cons.prems have "search r (Suc i) t = Some (j, n)" by simp
    from Cons.IH [OF this] obtain k where k: "k \<le> length t" "j = Suc i + k"
        "\<exists>ns. matches r (drop k t) = n # ns" "\<forall>k' < k. matches r (drop k' t) = []"
      by blast
    have "\<forall>k' < Suc k. matches r (drop k' (c # t)) = []"
      using k(4) Nil by (auto simp: less_Suc_eq_0_disj)
    with k(1,2,3) show ?thesis
      by (intro exI [of _ "Suc k"]) simp
  next
    case (Cons m ms)
    with Cons.prems show ?thesis by (intro exI [of _ 0]) simp
  qed
qed


text \<open>
  Claim C5. For every text, \<open>pick_first_url\<close> returns nothing exactly when no substring of
  the text has the URL shape (in particular for the empty text); and when it returns \<open>u\<close>,
  then \<open>u\<close> has the URL shape, occurs in the text, runs up to the next whitespace character
  or the end of the text, and no substring of URL shape starts further to the left: of
  several URLs, the first is returned.
\<close>

theorem pick_first_url_leftmost:
  "pick_first_url [] = None
   \<and> (pick_first_url text = None \<longleftrightarrow> \<not> (\<exists>pre u post. text = pre @ u @ post \<and> url_shaped u))
   \<and> (\<forall>u. pick_first_url text = Some u \<longrightarrow>
         url_shaped u
         \<and> (\<exists>pre post. text = pre @ u @ post
               \<and> (post = [] \<or> is_space (hd post))
               \<and> (\<forall>pre' u' post'. text = pre' @ u' @ post' \<and> url_shaped u'
                     \<longrightarrow> length pre \<le> length pre')))"
proof (intro conjI allI impI)
  show "pick_first_url [] = None" by (simp add: pick_first_url_def)
next
  have none_iff: "search URL_REGEX 0 text = None \<longleftrightarrow>
                  \<not> (\<exists>pre u post. text = pre @ u @ post \<and> url_shaped u)"
  proof
    assume n: "search URL_REGEX 0 text = None"
    show "\<not> (\<exists>pre u post. text = pre @ u @ post \<and> url_shaped u)"
    proof
      assume "\<exists>pre u post. text = pre @ u @ post \<and> url_shaped u"
      then obtain pre u post where t: "text = pre @ u @ post" and u: "url_shaped u" by blast
      have "length pre \<le> length text" by (simp add: t)
      then have "matches URL_REGEX (drop (length pre) text) = []"
        using n unfolding search_None_iff by blast
      then show False using url_shaped_matches [OF u, of post] by (simp add: t)
    qed
  next
    assume no: "\<not> (\<exists>pre u post. text = pre @ u @ post \<and> url_shaped u)"
    show "search URL_REGEX 0 text = None"
    proof (rule ccontr)
      assume "search URL_REGEX 0 text \<noteq> None"
      then obtain j n where "search URL_REGEX 0 text = Some (j, n)" by auto
      from search_Some [OF this] obtain k ns where k: "k \<le> length text"
          "matches URL_REGEX (drop k text) = n # ns" by blast
      from matches_URL_shape [OF k(2)] have "url_shaped (take n (drop k text))" by simp
      moreover have "text = take k text @ take n (drop k text) @ drop n (drop k text)"
        by (simp del: drop_drop)
      ultimately show False using no by blast
    qed
  qed
  have empty: "\<not> (\<exists>pre u post. [] = pre @ u @ post \<and> url_shaped u)"
    by (auto simp: url_shaped_def)
  show "pick_first_url text = None \<longleftrightarrow> \<not> (\<exists>pre u post. text = pre @ u @ post \<and> url_shaped u)"
  proof (cases "text = []")
    case True
    then show ?thesis using empty by (simp add: pick_first_url_def)
  next
    case False
    then have "pick_first_url text = None \<longleftrightarrow> search URL_REGEX 0 text = None"
      by (simp add: pick_first_url_def split: option.splits)
    then show ?thesis by (simp only: none_iff)
  qed
next
  fix u assume "pick_first_url text = Some u"
  then obtain j n where s: "search URL_REGEX 0 text = Some (j, n)" and u: "u = take n (drop j text)"
    by (auto simp: pick_first_url_def split: if_splits option.splits)
  from search_Some [OF s] obtain ns where j: "j \<le> length text"
      and m: "matches URL_REGEX (drop j text) = n # ns"
      and first: "\<forall>k' < j. matches URL_REGEX (drop k' text) = []" by auto
  from matches_URL_shape [OF m] have sh: "url_shaped u"
      and stop: "drop n (drop j text) = [] \<or> is_space (hd (drop n (drop j text)))"
    by (simp_all add: u)
  show "url_shaped u" by (rule sh)
  show "\<exists>pre post. text = pre @ u @ post
               \<and> (post = [] \<or> is_space (hd post))
               \<and> (\<forall>pre' u' post'. text = pre' @ u' @ post' \<and> url_shaped u'
                     \<longrightarrow> length pre \<le> length pre')"
  proof (rule exI [of _ "take j text"], rule exI [of _ "drop n (drop j text)"],
         intro conjI allI impI)
    show "text = take j text @ u @ drop n (drop j text)" by (simp add: u del: drop_drop)
    show "drop n (drop j text) = [] \<or> is_space (hd (drop n (drop j text)))" by (rule stop)
  next
    fix pre' u' post' assume a: "text = pre' @ u' @ post' \<and> url_shaped u'"
    show "length (take j text) \<le> length pre'"
    proof (rule ccontr)
      assume "\<not> length (take j text) \<le> length pre'"
      then have "length pre' < j" using j by simp
      with first have "matches URL_REGEX (drop (length pre') text) = []" by blast
      then show False using a url_shaped_matches [of u' post'] by simp
    qed
  qed
qed

theorem pick_first_url_leftmost_witness:
  "pick_first_url ''see HTTPs://youtu.be/abc and http://x.com/2'' = Some ''HTTPs://youtu.be/abc''
   \<and> url_shaped ''HTTPs://youtu.be/abc''"
proof -
  have e: "pick_first_url ''see HTTPs://youtu.be/abc and http://x.com/2'' = Some ''HTTPs://youtu.be/abc''"
    by code_simp
  with pick_first_url_leftmost [of "''see HTTPs://youtu.be/abc and http://x.com/2''"]
  show ?thesis by blast
qed

section \<open>The handler, path by path\<close>

lemma handle_message_accepted:
  assumes "accepted cfg upd c url"
  shows "handle_message cfg ev upd w =
           (case in_scratch cfg ev url (tmp_name ev) (scratch_world ev w) of
              (r, t, w') \<Rightarrow>
                (r, [SendChatAction c (chat_action_raises ev), MkTemp (tmp_name ev)] @ t
                      @ [RmTemp (tmp_name ev)],
                 rmtree (tmp_name ev) w'))"
  using assms
  by (simp add: accepted_def handle_message_def reject_if_not_whitelisted_def send_typing_def
        with_tempdir_def scratch_world_def split: option.splits prod.splits)

lemma handle_message_rejected:
  assumes "\<not> (\<exists>c url. accepted cfg upd c url)"
  shows "handle_message cfg ev upd w =
           (Inr (), snd (reject_if_not_whitelisted cfg ev upd), w)"
  using assms
  by (auto simp add: accepted_def handle_message_def reject_if_not_whitelisted_def reply_text_def
        Let_def split: option.splits prod.splits sum.splits bool.splits if_splits)

lemma in_scratch_failed:
  assumes "download ev url td w = (None, w')"
  shows "in_scratch cfg ev url td w =
           ((case reply_text_raises ev of None \<Rightarrow> Inr () | Some e \<Rightarrow> Inl e),
            [Head url, Extract url td, ReplyText CouldntDownload (reply_text_raises ev)], w')"
  using assms by (simp add: in_scratch_def reply_text_def)

lemma in_scratch_too_large:
  assumes "download ev url td w = (Some (fp, sz), w')"
      and "bytes_to_mb sz > of_int (MAX_SIZE_MB cfg)"
  shows "in_scratch cfg ev url td w =
           ((case reply_text_raises ev of None \<Rightarrow> Inr () | Some e \<Rightarrow> Inl e),
            [Head url, Extract url td,
             ReplyText (TooLarge (fmt_1f (bytes_to_mb sz)) (MAX_SIZE_MB cfg)) (reply_text_raises ev)],
            w')"
  using assms by (simp add: in_scratch_def reply_text_def)

lemma in_scratch_deliver:
  assumes "download ev url td w = (Some (fp, sz), w')"
      and "\<not> bytes_to_mb sz > of_int (MAX_SIZE_MB cfg)"
  shows "in_scratch cfg ev url td w =
           (fst (deliver ev fp), [Head url, Extract url td] @ snd (deliver ev fp), w')"
  using assms by (simp add: in_scratch_def split: prod.splits)

lemma download_raises:
  assumes "extract_raises ev = Some e"
  shows "download ev url td w = (None, backend_run ev td w)"
  using assms by (simp add: download_def ytdlp_download_def)

lemma deliver_cases:
  "deliver ev fp =
     (case reply_video_raises ev of
        None \<Rightarrow> (Inr (), [ReplyVideo fp None])
      | Some e \<Rightarrow>
         (case reply_document_raises ev of
            None \<Rightarrow> (Inr (), [ReplyVideo fp (Some e), LogWarning (VideoSendFailed e),
                              ReplyDocument fp None])
          | Some e' \<Rightarrow>
              ((case reply_text_raises ev of None \<Rightarrow> Inr () | Some x \<Rightarrow> Inl x),
               [ReplyVideo fp (Some e), LogWarning (VideoSendFailed e),
                ReplyDocument fp (Some e'),
                ReplyText (UploadFailed e') (reply_text_raises ev)])))"
  by (simp add: deliver_def reply_text_def split: option.splits)

lemma download_world:
  "snd (download ev url td w) = backend_run ev td w"
  by (simp add: download_def ytdlp_download_def Let_def split: option.splits)

lemma download_path:
  "download ev url td w = (Some (fp, sz), w') \<Longrightarrow> fst fp = td \<and> files w' fp = Some sz"
  by (auto simp add: download_def ytdlp_download_def Let_def split: option.splits if_splits)


lemma sample_accepted: "accepted sample_cfg sample_update 5 ''https://youtu.be/abc123''"
  by code_simp

lemma sample_download:
  "download (sample_env\<lparr>written := [''clip.mp4'' \<mapsto> n]\<rparr>) url ''/tmp/tmpa1''
      (scratch_world sample_env empty_world) =
     (Some ((''/tmp/tmpa1'', ''clip.mp4''), n),
      backend_run (sample_env\<lparr>written := [''clip.mp4'' \<mapsto> n]\<rparr>) ''/tmp/tmpa1''
        (scratch_world sample_env empty_world))"
  by (simp add: download_def ytdlp_download_def backend_run_def sample_env_def Let_def)

section \<open>Access control\<close>

text \<open>
  Claim C9. With the whitelist variable unset or empty, the allow-list is the empty set;
  with the empty set the check denies every update, also one without an effective chat,
  and the handler does nothing beyond what the check did.
\<close>

theorem empty_whitelist_denies_all:
  "load_whitelist py_int None = Inr {}
   \<and> load_whitelist py_int (Some []) = Inr {}
   \<and> fst (reject_if_not_whitelisted (cfg\<lparr>WHITELIST := {}\<rparr>) ev upd) = Inr True
   \<and> handle_message (cfg\<lparr>WHITELIST := {}\<rparr>) ev upd w =
       (Inr (), snd (reject_if_not_whitelisted (cfg\<lparr>WHITELIST := {}\<rparr>) ev upd), w)"
proof (intro conjI)
  show "load_whitelist py_int None = Inr {}"
    by (simp add: load_whitelist_def strip_def)
  show "load_whitelist py_int (Some []) = Inr {}"
    by (simp add: load_whitelist_def strip_def)
  show "fst (reject_if_not_whitelisted (cfg\<lparr>WHITELIST := {}\<rparr>) ev upd) = Inr True"
    by (simp add: reject_if_not_whitelisted_def reply_text_def Let_def
          split: option.splits)
  have "\<not> (\<exists>c url. accepted (cfg\<lparr>WHITELIST := {}\<rparr>) upd c url)"
    by (simp add: accepted_def)
  then show "handle_message (cfg\<lparr>WHITELIST := {}\<rparr>) ev upd w =
       (Inr (), snd (reject_if_not_whitelisted (cfg\<lparr>WHITELIST := {}\<rparr>) ev upd), w)"
    by (rule handle_message_rejected)
qed

theorem empty_whitelist_denies_all_witness:
  "fst (reject_if_not_whitelisted \<lparr>WHITELIST = {}, MAX_SIZE_MB = 50\<rparr> sample_env
          \<lparr>chat_id = None, msg_text = Some ''https://youtu.be/abc123'', msg_caption = None\<rparr>)
     = Inr True"
  using empty_whitelist_denies_all [of "\<lambda>_. None" sample_cfg sample_env
      "\<lparr>chat_id = None, msg_text = Some ''https://youtu.be/abc123'', msg_caption = None\<rparr>"
      empty_world]
  by (simp add: sample_cfg_def)

text \<open>
  Claim C7, as amended. The check never raises. For a chat that is not whitelisted (or no
  chat at all) it reports deny after attempting the warning reply; the rejection is logged
  when that reply returned, and when the reply raised the exception is swallowed and
  nothing is logged. For a whitelisted chat it reports allow and does nothing.
\<close>

theorem whitelist_check_outcomes:
  "(\<exists>b. fst (reject_if_not_whitelisted cfg ev upd) = Inr b)
   \<and> ((\<forall>c. chat_id upd = Some c \<longrightarrow> c \<notin> WHITELIST cfg) \<longrightarrow>
        reject_if_not_whitelisted cfg ev upd =
          (Inr True,
           (case reply_text_raises ev of
              None \<Rightarrow> [ReplyText NotAllowed None, LogWarning (RejectedChat (chat_id upd))]
            | Some e \<Rightarrow> [ReplyText NotAllowed (Some e)])))
   \<and> ((\<exists>c. chat_id upd = Some c \<and> c \<in> WHITELIST cfg) \<longrightarrow>
        reject_if_not_whitelisted cfg ev upd = (Inr False, []))"
  by (auto simp add: reject_if_not_whitelisted_def reply_text_def Let_def split: option.splits)

theorem whitelist_check_outcomes_witness:
  "reject_if_not_whitelisted sample_cfg sample_env
      \<lparr>chat_id = Some 7, msg_text = Some ''hi'', msg_caption = None\<rparr> =
     (Inr True, [ReplyText NotAllowed None, LogWarning (RejectedChat (Some 7))])
   \<and> reject_if_not_whitelisted sample_cfg sample_env sample_update = (Inr False, [])"
  using whitelist_check_outcomes [of sample_cfg sample_env
      "\<lparr>chat_id = Some 7, msg_text = Some ''hi'', msg_caption = None\<rparr>"]
    whitelist_check_outcomes [of sample_cfg sample_env sample_update]
  by (simp add: sample_cfg_def sample_env_def sample_update_def)

text \<open>
  Claim C7 as stated fails where the warning reply raises: chat 7 is not whitelisted, the
  check reports deny, and its only action is the failed reply; no log line is written.
\<close>

theorem warning_failure_skips_log:
  "reject_if_not_whitelisted sample_cfg (sample_env\<lparr>reply_text_raises := Some ''Timed out''\<rparr>)
      \<lparr>chat_id = Some 7, msg_text = Some ''hi'', msg_caption = None\<rparr> =
     (Inr True, [ReplyText NotAllowed (Some ''Timed out'')])"
  by (simp add: reject_if_not_whitelisted_def reply_text_def sample_cfg_def sample_env_def)

section \<open>Failures of the extraction backend\<close>

text \<open>
  Claim C6. When the backend raises, the handler catches the exception where the backend
  is called and goes on to the download-failed reply; it then leaves the scratch directory
  and returns. What the handler returns is decided by that reply alone: it raises only if
  sending the reply raises, and then with the reply's exception.
\<close>

theorem extraction_exception_caught:
  assumes "accepted cfg upd c url" and "extract_raises ev = Some e"
  shows "handle_message cfg ev upd w =
           ((case reply_text_raises ev of None \<Rightarrow> Inr () | Some x \<Rightarrow> Inl x),
            [SendChatAction c (chat_action_raises ev), MkTemp (tmp_name ev), Head url,
             Extract url (tmp_name ev), ReplyText CouldntDownload (reply_text_raises ev),
             RmTemp (tmp_name ev)],
            rmtree (tmp_name ev) (backend_run ev (tmp_name ev) (scratch_world ev w)))"
  unfolding handle_message_accepted [OF assms(1)]
    in_scratch_failed [OF download_raises [OF assms(2)]]
  by simp

theorem extraction_exception_caught_witness:
  "handle_message sample_cfg (sample_env\<lparr>extract_raises := Some ''DownloadError''\<rparr>)
      sample_update empty_world =
     (Inr (),
      [SendChatAction 5 None, MkTemp ''/tmp/tmpa1'', Head ''https://youtu.be/abc123'',
       Extract ''https://youtu.be/abc123'' ''/tmp/tmpa1'', ReplyText CouldntDownload None,
       RmTemp ''/tmp/tmpa1''],
      rmtree ''/tmp/tmpa1''
        (backend_run (sample_env\<lparr>extract_raises := Some ''DownloadError''\<rparr>) ''/tmp/tmpa1''
           (scratch_world sample_env empty_world)))"
  using extraction_exception_caught [OF sample_accepted,
      of "sample_env\<lparr>extract_raises := Some ''DownloadError''\<rparr>" "''DownloadError''" empty_world]
  by (simp add: sample_env_def scratch_world_def)

section \<open>The size gate\<close>

declare show_nat.simps [simp del]

lemma round_half_even_quot:
  assumes "0 < m"
  shows "round_half_even (of_nat n / of_nat m) =
           (let q = int (n div m); r = n mod m
            in if 2 * r < m then q else if m < 2 * r then q + 1 else if even q then q else q + 1)"
proof -
  have fl: "\<lfloor>(of_nat n :: rat) / of_nat m\<rfloor> = int (n div m)"
    by (simp add: floor_divide_of_nat_eq)
  have "(of_nat n :: rat) = of_nat (m * (n div m) + n mod m)" by simp
  then have "(of_nat n :: rat) = of_nat m * of_nat (n div m) + of_nat (n mod m)"
    by (simp only: of_nat_add of_nat_mult)
  then have fr: "(of_nat n :: rat) / of_nat m - of_int (int (n div m)) = of_nat (n mod m) / of_nat m"
    using assms by (simp add: field_simps)
  have lt: "(of_nat (n mod m) / of_nat m < (1 / 2 :: rat)) = (2 * (n mod m) < m)"
  proof -
    have "(of_nat (n mod m) / of_nat m < (1 / 2 :: rat)) = ((of_nat (2 * (n mod m)) :: rat) < of_nat m)"
      using assms by (simp add: field_simps)
    then show ?thesis by (simp only: of_nat_less_iff)
  qed
  have gt: "((1 / 2 :: rat) < of_nat (n mod m) / of_nat m) = (m < 2 * (n mod m))"
  proof -
    have "((1 / 2 :: rat) < of_nat (n mod m) / of_nat m) = ((of_nat m :: rat) < of_nat (2 * (n mod m)))"
      using assms by (simp add: field_simps)
    then show ?thesis by (simp only: of_nat_less_iff)
  qed
  show ?thesis
    unfolding round_half_even_def Let_def fl fr lt gt by simp
qed

lemma tenths_of_size:
  "round_half_even (bytes_to_mb b * 10) =
     (let q = int ((10 * b) div 1048576); r = (10 * b) mod 1048576
      in if 2 * r < 1048576 then q else if 1048576 < 2 * r then q + 1
         else if even q then q else q + 1)"
proof -
  have e: "bytes_to_mb b * 10 = of_nat (10 * b) / of_nat 1048576"
    by (simp add: bytes_to_mb_def)
  show ?thesis unfolding e by (rule round_half_even_quot) simp
qed

lemma show_nat_digit: "n < 10 \<Longrightarrow> show_nat n = [''0123456789'' ! n]"
  by (simp add: show_nat.simps)

lemma show_nat_more: "10 \<le> n \<Longrightarrow> show_nat n = show_nat (n div 10) @ [''0123456789'' ! (n mod 10)]"
  by (subst show_nat.simps) simp

lemma round_half_even_near: "\<bar>of_int (round_half_even q) - q\<bar> \<le> 1 / 2"
proof -
  have "of_int \<lfloor>q\<rfloor> \<le> q" "q < of_int \<lfloor>q\<rfloor> + 1" by linarith+
  then show ?thesis
    by (auto simp add: round_half_even_def Let_def abs_le_iff)
qed

lemma fmt_50: "fmt_1f (bytes_to_mb 52428801) = ''50.0''"
  by (simp add: fmt_1f_def tenths_of_size show_nat_digit show_nat_more)

lemma fmt_50': "fmt_1f (bytes_to_mb 52430000) = ''50.0''"
  by (simp add: fmt_1f_def tenths_of_size show_nat_digit show_nat_more)

lemma fmt_120: "fmt_1f (bytes_to_mb 125829120) = ''120.0''"
  by (simp add: fmt_1f_def tenths_of_size show_nat_digit show_nat_more)

text \<open>
  Claim C2, as amended. When the download produced a file whose size in MB is above the
  limit, the handler's one remaining action before it leaves the scratch directory is the
  reply that carries the limit and the size in MB rounded to one decimal place (the text
  of a number of tenths that is within a twentieth of the size); no video and no document
  upload is attempted.
\<close>

theorem oversize_reply_no_upload:
  assumes "accepted cfg upd c url"
      and "download ev url (tmp_name ev) (scratch_world ev w) = (Some (fp, sz), w')"
      and "bytes_to_mb sz > of_int (MAX_SIZE_MB cfg)"
  shows "handle_message cfg ev upd w =
           ((case reply_text_raises ev of None \<Rightarrow> Inr () | Some x \<Rightarrow> Inl x),
            [SendChatAction c (chat_action_raises ev), MkTemp (tmp_name ev), Head url,
             Extract url (tmp_name ev),
             ReplyText (TooLarge (fmt_1f (bytes_to_mb sz)) (MAX_SIZE_MB cfg)) (reply_text_raises ev),
             RmTemp (tmp_name ev)],
            rmtree (tmp_name ev) w')
         \<and> (\<exists>t :: int. fmt_1f (bytes_to_mb sz) = show_nat (nat t div 10) @ ''.'' @ show_nat (nat t mod 10)
                \<and> \<bar>of_int t / 10 - bytes_to_mb sz\<bar> \<le> 1 / 20)"
proof
  show "handle_message cfg ev upd w =
           ((case reply_text_raises ev of None \<Rightarrow> Inr () | Some x \<Rightarrow> Inl x),
            [SendChatAction c (chat_action_raises ev), MkTemp (tmp_name ev), Head url,
             Extract url (tmp_name ev),
             ReplyText (TooLarge (fmt_1f (bytes_to_mb sz)) (MAX_SIZE_MB cfg)) (reply_text_raises ev),
             RmTemp (tmp_name ev)],
            rmtree (tmp_name ev) w')"
    unfolding handle_message_accepted [OF assms(1)] in_scratch_too_large [OF assms(2,3)]
    by simp
  have "\<bar>of_int (round_half_even (bytes_to_mb sz * 10)) - bytes_to_mb sz * 10\<bar> \<le> 1 / 2"
    by (rule round_half_even_near)
  then have "\<bar>of_int (round_half_even (bytes_to_mb sz * 10)) / 10 - bytes_to_mb sz\<bar> \<le> 1 / 20"
    by (simp add: abs_le_iff field_simps)
  then show "\<exists>t :: int. fmt_1f (bytes_to_mb sz) = show_nat (nat t div 10) @ ''.'' @ show_nat (nat t mod 10)
                \<and> \<bar>of_int t / 10 - bytes_to_mb sz\<bar> \<le> 1 / 20"
    by (intro exI [of _ "round_half_even (bytes_to_mb sz * 10)"]) (simp add: fmt_1f_def Let_def)
qed

theorem oversize_reply_no_upload_witness:
  "handle_message sample_cfg (sample_env\<lparr>written := [''clip.mp4'' \<mapsto> 125829120]\<rparr>)
      sample_update empty_world =
     (Inr (),
      [SendChatAction 5 None, MkTemp ''/tmp/tmpa1'', Head ''https://youtu.be/abc123'',
       Extract ''https://youtu.be/abc123'' ''/tmp/tmpa1'',
       ReplyText (TooLarge ''120.0'' 50) None, RmTemp ''/tmp/tmpa1''],
      rmtree ''/tmp/tmpa1''
        (backend_run (sample_env\<lparr>written := [''clip.mp4'' \<mapsto> 125829120]\<rparr>) ''/tmp/tmpa1''
           (scratch_world sample_env empty_world)))"
proof -
  have big: "bytes_to_mb 125829120 > of_int (MAX_SIZE_MB sample_cfg)"
    by (simp add: bytes_to_mb_def sample_cfg_def)
  have dl: "download (sample_env\<lparr>written := [''clip.mp4'' \<mapsto> 125829120]\<rparr>) ''https://youtu.be/abc123''
              (tmp_name (sample_env\<lparr>written := [''clip.mp4'' \<mapsto> 125829120]\<rparr>))
              (scratch_world (sample_env\<lparr>written := [''clip.mp4'' \<mapsto> 125829120]\<rparr>) empty_world) =
            (Some ((''/tmp/tmpa1'', ''clip.mp4''), 125829120),
             backend_run (sample_env\<lparr>written := [''clip.mp4'' \<mapsto> 125829120]\<rparr>) ''/tmp/tmpa1''
               (scratch_world sample_env empty_world))"
    using sample_download [of 125829120 "''https://youtu.be/abc123''"]
    by (simp add: sample_env_def scratch_world_def)
  from oversize_reply_no_upload [OF sample_accepted dl big]
  show ?thesis by (simp add: fmt_120 sample_env_def sample_cfg_def)
qed

text \<open>
  Claim C2 as stated fails on the exact size: files of 52428801 and of 52430000 bytes, both
  above the limit of 50 MB, get the same reply, which shows 50.0 MB.
\<close>

theorem oversize_reply_rounds_size:
  "fst (snd (handle_message sample_cfg (sample_env\<lparr>written := [''clip.mp4'' \<mapsto> 52428801]\<rparr>)
      sample_update empty_world)) =
     [SendChatAction 5 None, MkTemp ''/tmp/tmpa1'', Head ''https://youtu.be/abc123'',
      Extract ''https://youtu.be/abc123'' ''/tmp/tmpa1'',
      ReplyText (TooLarge ''50.0'' 50) None, RmTemp ''/tmp/tmpa1'']
   \<and> fst (snd (handle_message sample_cfg (sample_env\<lparr>written := [''clip.mp4'' \<mapsto> 52430000]\<rparr>)
      sample_update empty_world)) =
     [SendChatAction 5 None, MkTemp ''/tmp/tmpa1'', Head ''https://youtu.be/abc123'',
      Extract ''https://youtu.be/abc123'' ''/tmp/tmpa1'',
      ReplyText (TooLarge ''50.0'' 50) None, RmTemp ''/tmp/tmpa1'']"
proof -
  have big: "bytes_to_mb 52428801 > of_int (MAX_SIZE_MB sample_cfg)"
       "bytes_to_mb 52430000 > of_int (MAX_SIZE_MB sample_cfg)"
    by (simp_all add: bytes_to_mb_def sample_cfg_def)
  have dl: "download (sample_env\<lparr>written := [''clip.mp4'' \<mapsto> n]\<rparr>) ''https://youtu.be/abc123''
              (tmp_name (sample_env\<lparr>written := [''clip.mp4'' \<mapsto> n]\<rparr>))
              (scratch_world (sample_env\<lparr>written := [''clip.mp4'' \<mapsto> n]\<rparr>) empty_world) =
            (Some ((''/tmp/tmpa1'', ''clip.mp4''), n),
             backend_run (sample_env\<lparr>written := [''clip.mp4'' \<mapsto> n]\<rparr>) ''/tmp/tmpa1''
               (scratch_world sample_env empty_world))" for n
    using sample_download [of n "''https://youtu.be/abc123''"]
    by (simp add: sample_env_def scratch_world_def)
  show ?thesis
    unfolding handle_message_accepted [OF sample_accepted]
      in_scratch_too_large [OF dl big(1)] in_scratch_too_large [OF dl big(2)]
    by (simp add: fmt_50 fmt_50' sample_env_def sample_cfg_def)
qed

section \<open>Delivery\<close>

lemma sent_deliver:
  "length (filter sent (snd (deliver ev fp))) \<le> 1
   \<and> (reply_text_raises ev = None \<longrightarrow> length (filter sent (snd (deliver ev fp))) = 1)"
  by (simp add: deliver_cases sent_def split: option.splits)

text \<open>
  Claim C4, as amended. With a downloaded file that passes the size gate, the handler
  attempts the video reply first; only if that raised, the document reply; only if both
  raised, the text reply with the document upload's failure text. At most one of the three
  is sent, and exactly one if the text reply does not raise; the handler raises only when
  the text reply does.
\<close>

theorem delivery_video_document_text:
  assumes "accepted cfg upd c url"
      and "download ev url (tmp_name ev) (scratch_world ev w) = (Some (fp, sz), w')"
      and "\<not> bytes_to_mb sz > of_int (MAX_SIZE_MB cfg)"
  shows "handle_message cfg ev upd w =
           (fst (deliver ev fp),
            [SendChatAction c (chat_action_raises ev), MkTemp (tmp_name ev), Head url,
             Extract url (tmp_name ev)] @ snd (deliver ev fp) @ [RmTemp (tmp_name ev)],
            rmtree (tmp_name ev) w')
         \<and> deliver ev fp =
             (case reply_video_raises ev of
                None \<Rightarrow> (Inr (), [ReplyVideo fp None])
              | Some e \<Rightarrow>
                 (case reply_document_raises ev of
                    None \<Rightarrow> (Inr (), [ReplyVideo fp (Some e), LogWarning (VideoSendFailed e),
                                      ReplyDocument fp None])
                  | Some e' \<Rightarrow>
                      ((case reply_text_raises ev of None \<Rightarrow> Inr () | Some x \<Rightarrow> Inl x),
                       [ReplyVideo fp (Some e), LogWarning (VideoSendFailed e),
                        ReplyDocument fp (Some e'),
                        ReplyText (UploadFailed e') (reply_text_raises ev)])))
         \<and> length (filter sent (snd (deliver ev fp))) \<le> 1
         \<and> (reply_text_raises ev = None \<longrightarrow> length (filter sent (snd (deliver ev fp))) = 1)"
proof (intro conjI)
  show "handle_message cfg ev upd w =
           (fst (deliver ev fp),
            [SendChatAction c (chat_action_raises ev), MkTemp (tmp_name ev), Head url,
             Extract url (tmp_name ev)] @ snd (deliver ev fp) @ [RmTemp (tmp_name ev)],
            rmtree (tmp_name ev) w')"
    unfolding handle_message_accepted [OF assms(1)] in_scratch_deliver [OF assms(2,3)]
    by simp
  show "deliver ev fp =
             (case reply_video_raises ev of
                None \<Rightarrow> (Inr (), [ReplyVideo fp None])
              | Some e \<Rightarrow>
                 (case reply_document_raises ev of
                    None \<Rightarrow> (Inr (), [ReplyVideo fp (Some e), LogWarning (VideoSendFailed e),
                                      ReplyDocument fp None])
                  | Some e' \<Rightarrow>
                      ((case reply_text_raises ev of None \<Rightarrow> Inr () | Some x \<Rightarrow> Inl x),
                       [ReplyVideo fp (Some e), LogWarning (VideoSendFailed e),
                        ReplyDocument fp (Some e'),
                        ReplyText (UploadFailed e') (reply_text_raises ev)])))"
    by (rule deliver_cases)
  show "length (filter sent (snd (deliver ev fp))) \<le> 1"
    using sent_deliver by blast
  show "reply_text_raises ev = None \<longrightarrow> length (filter sent (snd (deliver ev fp))) = 1"
    using sent_deliver by blast
qed

lemma sample_download_env:
  assumes "tmp_name ev = ''/tmp/tmpa1''" and "written ev = [''clip.mp4'' \<mapsto> n]"
      and "extract_raises ev = None" and "prepared ev = Some ''clip.mp4''"
  shows "download ev url (tmp_name ev) (scratch_world ev empty_world) =
           (Some ((''/tmp/tmpa1'', ''clip.mp4''), n),
            backend_run ev ''/tmp/tmpa1'' (scratch_world ev empty_world))"
  using assms by (simp add: download_def ytdlp_download_def backend_run_def Let_def)

theorem delivery_video_document_text_witness:
  "fst (snd (handle_message sample_cfg
       (sample_env\<lparr>reply_video_raises := Some ''Bad Request'', reply_document_raises := Some ''Timed out''\<rparr>)
       sample_update empty_world)) =
     [SendChatAction 5 None, MkTemp ''/tmp/tmpa1'', Head ''https://youtu.be/abc123'',
      Extract ''https://youtu.be/abc123'' ''/tmp/tmpa1'',
      ReplyVideo (''/tmp/tmpa1'', ''clip.mp4'') (Some ''Bad Request''),
      LogWarning (VideoSendFailed ''Bad Request''),
      ReplyDocument (''/tmp/tmpa1'', ''clip.mp4'') (Some ''Timed out''),
      ReplyText (UploadFailed ''Timed out'') None, RmTemp ''/tmp/tmpa1'']"
proof -
  let ?ev = "sample_env\<lparr>reply_video_raises := Some ''Bad Request'', reply_document_raises := Some ''Timed out''\<rparr>"
  have small: "\<not> bytes_to_mb 1000 > of_int (MAX_SIZE_MB sample_cfg)"
    by (simp add: bytes_to_mb_def sample_cfg_def)
  have dl: "download ?ev ''https://youtu.be/abc123'' (tmp_name ?ev) (scratch_world ?ev empty_world) =
              (Some ((''/tmp/tmpa1'', ''clip.mp4''), 1000),
               backend_run ?ev ''/tmp/tmpa1'' (scratch_world ?ev empty_world))"
    by (rule sample_download_env) (simp_all add: sample_env_def)
  from delivery_video_document_text [OF sample_accepted dl small]
  show ?thesis by (simp add: sample_env_def)
qed

text \<open>
  Claim C4 as stated fails when the text reply raises too: all three attempts are made,
  none is sent, and the handler raises the last exception.
\<close>

theorem delivery_all_three_fail:
  "fst (handle_message sample_cfg
       (sample_env\<lparr>reply_video_raises := Some ''Bad Request'', reply_document_raises := Some ''Timed out'',
                    reply_text_raises := Some ''Network down''\<rparr>)
       sample_update empty_world) = Inl ''Network down''
   \<and> fst (snd (handle_message sample_cfg
       (sample_env\<lparr>reply_video_raises := Some ''Bad Request'', reply_document_raises := Some ''Timed out'',
                    reply_text_raises := Some ''Network down''\<rparr>)
       sample_update empty_world)) =
     [SendChatAction 5 None, MkTemp ''/tmp/tmpa1'', Head ''https://youtu.be/abc123'',
      Extract ''https://youtu.be/abc123'' ''/tmp/tmpa1'',
      ReplyVideo (''/tmp/tmpa1'', ''clip.mp4'') (Some ''Bad Request''),
      LogWarning (VideoSendFailed ''Bad Request''),
      ReplyDocument (''/tmp/tmpa1'', ''clip.mp4'') (Some ''Timed out''),
      ReplyText (UploadFailed ''Timed out'') (Some ''Network down''), RmTemp ''/tmp/tmpa1'']
   \<and> filter sent (fst (snd (handle_message sample_cfg
       (sample_env\<lparr>reply_video_raises := Some ''Bad Request'', reply_document_raises := Some ''Timed out'',
                    reply_text_raises := Some ''Network down''\<rparr>)
       sample_update empty_world))) = []"
proof -
  let ?ev = "sample_env\<lparr>reply_video_raises := Some ''Bad Request'', reply_document_raises := Some ''Timed out'',
                    reply_text_raises := Some ''Network down''\<rparr>"
  have small: "\<not> bytes_to_mb 1000 > of_int (MAX_SIZE_MB sample_cfg)"
    by (simp add: bytes_to_mb_def sample_cfg_def)
  have dl: "download ?ev ''https://youtu.be/abc123'' (tmp_name ?ev) (scratch_world ?ev empty_world) =
              (Some ((''/tmp/tmpa1'', ''clip.mp4''), 1000),
               backend_run ?ev ''/tmp/tmpa1'' (scratch_world ?ev empty_world))"
    by (rule sample_download_env) (simp_all add: sample_env_def)
  show ?thesis
    unfolding handle_message_accepted [OF sample_accepted] in_scratch_deliver [OF dl small]
    by (simp add: deliver_cases sample_env_def sent_def)
qed

section \<open>The scratch directory\<close>

lemma in_scratch_world:
  "snd (snd (in_scratch cfg ev url td w)) = backend_run ev td w"
  using download_world [of ev url td w]
  by (auto simp add: in_scratch_def split: prod.splits option.splits)

lemma in_scratch_paths:
  assumes "ReplyVideo fp x \<in> set (fst (snd (in_scratch cfg ev url td w)))
           \<or> ReplyDocument fp x \<in> set (fst (snd (in_scratch cfg ev url td w)))"
  shows "fst fp = td"
proof (cases "fst (download ev url td w)")
  case None
  then have "download ev url td w = (None, snd (download ev url td w))"
    by (metis prod.collapse)
  from in_scratch_failed [OF this] assms show ?thesis by simp
next
  case (Some p)
  then obtain fp' sz where d: "download ev url td w = (Some (fp', sz), snd (download ev url td w))"
    by (metis prod.collapse)
  from download_path [OF d] have td: "fst fp' = td" by simp
  show ?thesis
  proof (cases "bytes_to_mb sz > of_int (MAX_SIZE_MB cfg)")
    case True
    from in_scratch_too_large [OF d True] assms show ?thesis by simp
  next
    case False
    from in_scratch_deliver [OF d False] assms td show ?thesis
      by (auto simp add: deliver_cases split: option.splits)
  qed
qed

lemma in_scratch_no_dirs:
  "MkTemp d \<notin> set (fst (snd (in_scratch cfg ev url td w)))"
  by (auto simp add: in_scratch_def reply_text_def deliver_cases split: prod.splits option.splits)

lemma rejected_trace:
  "a \<in> set (snd (reject_if_not_whitelisted cfg ev upd)) \<Longrightarrow>
     (\<exists>r. a = ReplyText NotAllowed r) \<or> (\<exists>c. a = LogWarning (RejectedChat c))"
  by (auto simp add: reject_if_not_whitelisted_def reply_text_def Let_def split: option.splits if_splits)

text \<open>
  Claim C8. Whenever the handler creates its scratch directory, its last action is to
  remove it, and afterwards neither the directory nor any file in it exists; this covers
  every way out of the handler, a raised exception included. The directory it creates is
  the only one, every file it uploads lies in it, and the rest of the file system is as
  before.
\<close>

theorem scratch_directory_destroyed:
  "(MkTemp (tmp_name ev) \<in> set (fst (snd (handle_message cfg ev upd w))) \<longrightarrow>
      last (fst (snd (handle_message cfg ev upd w))) = RmTemp (tmp_name ev)
      \<and> tmp_name ev \<notin> dirs (snd (snd (handle_message cfg ev upd w)))
      \<and> (\<forall>n. files (snd (snd (handle_message cfg ev upd w))) (tmp_name ev, n) = None))
   \<and> (\<forall>d. MkTemp d \<in> set (fst (snd (handle_message cfg ev upd w))) \<longrightarrow> d = tmp_name ev)
   \<and> (\<forall>fp x. ReplyVideo fp x \<in> set (fst (snd (handle_message cfg ev upd w)))
               \<or> ReplyDocument fp x \<in> set (fst (snd (handle_message cfg ev upd w)))
             \<longrightarrow> fst fp = tmp_name ev)
   \<and> (\<forall>d n. d \<noteq> tmp_name ev \<longrightarrow>
         files (snd (snd (handle_message cfg ev upd w))) (d, n) = files w (d, n))
   \<and> dirs (snd (snd (handle_message cfg ev upd w))) - {tmp_name ev} = dirs w - {tmp_name ev}"
proof (cases "\<exists>c url. accepted cfg upd c url")
  case False
  have h: "handle_message cfg ev upd w = (Inr (), snd (reject_if_not_whitelisted cfg ev upd), w)"
    by (rule handle_message_rejected [OF False])
  show ?thesis unfolding h using rejected_trace [of _ cfg ev upd] by fastforce
next
  case True
  then obtain c url where acc: "accepted cfg upd c url" by blast
  obtain r t w' where s: "in_scratch cfg ev url (tmp_name ev) (scratch_world ev w) = (r, t, w')"
    by (metis prod.collapse)
  have w': "w' = backend_run ev (tmp_name ev) (scratch_world ev w)"
    using in_scratch_world [of cfg ev url "tmp_name ev" "scratch_world ev w"] s by simp
  have paths: "fst fp = tmp_name ev" if "ReplyVideo fp x \<in> set t \<or> ReplyDocument fp x \<in> set t" for fp x
    using in_scratch_paths [of fp x cfg ev url "tmp_name ev" "scratch_world ev w"] that s by simp
  have nodirs: "MkTemp d \<notin> set t" for d
    using in_scratch_no_dirs [of d cfg ev url "tmp_name ev" "scratch_world ev w"] s by simp
  have h: "handle_message cfg ev upd w =
             (r, [SendChatAction c (chat_action_raises ev), MkTemp (tmp_name ev)] @ t
                   @ [RmTemp (tmp_name ev)], rmtree (tmp_name ev) w')"
    unfolding handle_message_accepted [OF acc] s by simp
  show ?thesis
    unfolding h using paths nodirs
    by (auto simp add: w' rmtree_def backend_run_def scratch_world_def)
qed

theorem scratch_directory_destroyed_witness:
  "last (fst (snd (handle_message sample_cfg sample_env sample_update empty_world))) = RmTemp ''/tmp/tmpa1''
   \<and> ''/tmp/tmpa1'' \<notin> dirs (snd (snd (handle_message sample_cfg sample_env sample_update empty_world)))
   \<and> files (snd (snd (handle_message sample_cfg sample_env sample_update empty_world)))
        (''/tmp/tmpa1'', ''clip.mp4'') = None"
proof -
  have small: "\<not> bytes_to_mb 1000 > of_int (MAX_SIZE_MB sample_cfg)"
    by (simp add: bytes_to_mb_def sample_cfg_def)
  have dl: "download sample_env ''https://youtu.be/abc123'' (tmp_name sample_env)
              (scratch_world sample_env empty_world) =
              (Some ((''/tmp/tmpa1'', ''clip.mp4''), 1000),
               backend_run sample_env ''/tmp/tmpa1'' (scratch_world sample_env empty_world))"
    by (rule sample_download_env) (simp_all add: sample_env_def)
  have "MkTemp (tmp_name sample_env) \<in>
          set (fst (snd (handle_message sample_cfg sample_env sample_update empty_world)))"
    unfolding handle_message_accepted [OF sample_accepted] in_scratch_deliver [OF dl small]
    by simp
  with scratch_directory_destroyed [of sample_env sample_cfg sample_update empty_world]
  show ?thesis by (simp add: sample_env_def)
qed

section \<open>The streaming downloader, chunk by chunk\<close>

lemma over_mono: "over limit a \<Longrightarrow> a \<le> b \<Longrightarrow> over limit b"
proof -
  assume a: "over limit a" and le: "a \<le> b"
  have "bytes_to_mb a \<le> bytes_to_mb b"
    using le by (simp add: bytes_to_mb_def divide_le_cancel)
  with a show ?thesis by (simp add: over_def)
qed

lemma total_simps [simp]:
  "total [] = 0" "total (c # cs) = length c + total cs" "total (xs @ ys) = total xs + total ys"
  by (simp_all add: total_def)

lemma consume_chunks:
  "\<not> over limit (sz + total cs) \<Longrightarrow>
     consume limit sz f (map Chunk cs @ evs) = consume limit (sz + total cs) (f @ concat cs) evs"
proof (induction cs arbitrary: sz f)
  case Nil
  show ?case by simp
next
  case (Cons c cs)
  have "\<not> over limit (sz + length c)"
    using Cons.prems over_mono [of limit "sz + length c" "sz + total (c # cs)"] by auto
  moreover have "\<not> over limit ((sz + length c) + total cs)"
    using Cons.prems by (simp add: add.assoc)
  ultimately show ?case
    using Cons.IH [of "sz + length c" "f @ c"]
    by (cases "c = []") (simp_all add: over_def add.assoc)
qed

lemma consume_crossing:
  assumes "\<not> over limit (sz + total pre)" and "over limit (sz + total pre + length c)"
  shows "consume limit sz f (map Chunk pre @ Chunk c # evs) =
           ((False, sz + total pre + length c), f @ concat pre)"
proof -
  have "c \<noteq> []" using assms by auto
  then show ?thesis
    using assms(2) unfolding consume_chunks [OF assms(1)] by (simp add: over_def)
qed

lemma chunk_size: "CHUNK_SIZE = 16 * 1024"
  by (simp add: CHUNK_SIZE_def)

text \<open>
  Claim C3, as amended. The downloader adds up the chunk lengths as the chunks arrive. At
  the first chunk with which the sum is over the limit it returns failure together with
  the sum, that chunk included; neither that chunk nor any later one is written, and the
  output file is left in place, holding the chunks before it. When the sum never passes
  the limit, every chunk is written and the result is success with the full count. Chunks
  are requested in units of 16 KB.
\<close>

theorem stream_stops_at_crossing:
  "(\<not> over (MAX_SIZE_MB cfg) (total pre) \<and> over (MAX_SIZE_MB cfg) (total pre + length c) \<longrightarrow>
      http_get_to_file cfg (Body (map Chunk (pre @ c # post))) file =
        ((False, total pre + length c), Some (concat pre)))
   \<and> (\<not> over (MAX_SIZE_MB cfg) (total cs) \<longrightarrow>
      http_get_to_file cfg (Body (map Chunk cs)) file = ((True, total cs), Some (concat cs)))
   \<and> CHUNK_SIZE = 16 * 1024"
proof (intro conjI impI)
  assume a: "\<not> over (MAX_SIZE_MB cfg) (total pre) \<and> over (MAX_SIZE_MB cfg) (total pre + length c)"
  then have "consume (MAX_SIZE_MB cfg) 0 [] (map Chunk pre @ Chunk c # map Chunk post) =
               ((False, 0 + total pre + length c), [] @ concat pre)"
    by (intro consume_crossing) simp_all
  then show "http_get_to_file cfg (Body (map Chunk (pre @ c # post))) file =
        ((False, total pre + length c), Some (concat pre))"
    by (simp add: http_get_to_file_def)
next
  assume "\<not> over (MAX_SIZE_MB cfg) (total cs)"
  then have "consume (MAX_SIZE_MB cfg) 0 [] (map Chunk cs @ []) =
               consume (MAX_SIZE_MB cfg) (0 + total cs) ([] @ concat cs) []"
    by (intro consume_chunks) simp
  then show "http_get_to_file cfg (Body (map Chunk cs)) file = ((True, total cs), Some (concat cs))"
    by (simp add: http_get_to_file_def)
next
  show "CHUNK_SIZE = 16 * 1024" by (rule chunk_size)
qed

lemma total_replicate: "total (replicate n c) = n * length c"
  by (induction n) simp_all

lemma sample_stream:
  "\<not> over 1 (total (replicate 64 (replicate 16384 (0::nat))))"
  "over 1 (total (replicate 64 (replicate 16384 (0::nat))) + length [0::nat])"
  by (simp_all add: total_replicate over_def bytes_to_mb_def)

theorem stream_stops_at_crossing_witness:
  "http_get_to_file (sample_cfg\<lparr>MAX_SIZE_MB := 1\<rparr>)
      (Body (map Chunk (replicate 64 (replicate 16384 (0::nat)) @ [0] # [[0, 0]]))) None =
     ((False, 1048577), Some (concat (replicate 64 (replicate 16384 0))))"
  using stream_stops_at_crossing [THEN conjunct1, of "sample_cfg\<lparr>MAX_SIZE_MB := 1\<rparr>"
      "replicate 64 (replicate 16384 (0::nat))" "[0]" "[[0, 0]]" None] sample_stream
  by (simp add: total_replicate)

text \<open>
  Claim C3 as stated fails on the deletion: with a limit of 1 MB, 64 chunks of 16 KB
  followed by one more byte make the downloader return failure, and the output file is
  still there with the first 1048576 bytes in it.
\<close>

theorem stream_keeps_partial_file:
  "http_get_to_file (sample_cfg\<lparr>MAX_SIZE_MB := 1\<rparr>)
      (Body (map Chunk (replicate 64 (replicate 16384 (0::nat)) @ [[0]]))) None =
     ((False, 1048577), Some (concat (replicate 64 (replicate 16384 0))))
   \<and> length (concat (replicate 64 (replicate 16384 (0::nat)))) = 1048576"
proof -
  have "consume 1 0 [] (map Chunk (replicate 64 (replicate 16384 (0::nat))) @ Chunk [0] # []) =
          ((False, 0 + total (replicate 64 (replicate 16384 (0::nat))) + length [0::nat]),
           [] @ concat (replicate 64 (replicate 16384 0)))"
    using sample_stream by (intro consume_crossing) simp_all
  moreover have "length (concat (replicate 64 (replicate 16384 (0::nat)))) = 1048576"
    using total_replicate [of 64 "replicate 16384 (0::nat)"]
    by (simp add: total_def length_concat del: map_replicate)
  ultimately show ?thesis
    by (simp add: http_get_to_file_def total_replicate)
qed

section \<open>Sizes at the limit\<close>

lemma at_limit_not_over:
  "int n = limit * 1024 * 1024 \<Longrightarrow> \<not> over limit n"
proof -
  assume "int n = limit * 1024 * 1024"
  then have "(of_nat n :: rat) = of_int (limit * 1024 * 1024)"
    by (metis of_int_of_nat_eq)
  then show ?thesis by (simp add: over_def bytes_to_mb_def)
qed

text \<open>
  Claim C10. Both size tests are strict. A downloaded file of exactly
  \<open>MAX_SIZE_MB * 1024 * 1024\<close> bytes passes the gate after the download, and delivery starts
  with the video reply. In the streaming downloader a chunk that brings the sum exactly to
  that number is written, and the download succeeds if it is the last one.
\<close>

theorem size_at_limit_admitted:
  "(accepted cfg upd c url
      \<and> download ev url (tmp_name ev) (scratch_world ev w) = (Some (fp, sz), w')
      \<and> int sz = MAX_SIZE_MB cfg * 1024 * 1024 \<longrightarrow>
      handle_message cfg ev upd w =
        (fst (deliver ev fp),
         [SendChatAction c (chat_action_raises ev), MkTemp (tmp_name ev), Head url,
          Extract url (tmp_name ev)] @ snd (deliver ev fp) @ [RmTemp (tmp_name ev)],
         rmtree (tmp_name ev) w')
      \<and> hd (snd (deliver ev fp)) = ReplyVideo fp (reply_video_raises ev))
   \<and> (chunk \<noteq> [] \<and> int (total pre + length chunk) = MAX_SIZE_MB cfg * 1024 * 1024 \<longrightarrow>
      http_get_to_file cfg (Body (map Chunk (pre @ [chunk]))) file =
        ((True, total pre + length chunk), Some (concat pre @ chunk)))"
proof (intro conjI impI)
  assume a: "accepted cfg upd c url
      \<and> download ev url (tmp_name ev) (scratch_world ev w) = (Some (fp, sz), w')
      \<and> int sz = MAX_SIZE_MB cfg * 1024 * 1024"
  then have "\<not> over (MAX_SIZE_MB cfg) sz" by (intro at_limit_not_over) simp
  then have small: "\<not> bytes_to_mb sz > of_int (MAX_SIZE_MB cfg)" by (simp add: over_def)
  from a have acc: "accepted cfg upd c url"
    and dl: "download ev url (tmp_name ev) (scratch_world ev w) = (Some (fp, sz), w')" by simp_all
  show "handle_message cfg ev upd w =
        (fst (deliver ev fp),
         [SendChatAction c (chat_action_raises ev), MkTemp (tmp_name ev), Head url,
          Extract url (tmp_name ev)] @ snd (deliver ev fp) @ [RmTemp (tmp_name ev)],
         rmtree (tmp_name ev) w')"
    unfolding handle_message_accepted [OF acc] in_scratch_deliver [OF dl small] by simp
  show "hd (snd (deliver ev fp)) = ReplyVideo fp (reply_video_raises ev)"
    by (simp add: deliver_cases split: option.splits)
next
  assume b: "chunk \<noteq> [] \<and> int (total pre + length chunk) = MAX_SIZE_MB cfg * 1024 * 1024"
  then have "\<not> over (MAX_SIZE_MB cfg) (total pre + length chunk)"
    by (intro at_limit_not_over) simp
  then have "\<not> over (MAX_SIZE_MB cfg) (0 + total (pre @ [chunk]))" by simp
  from consume_chunks [OF this, of "[]" "[]"]
  show "http_get_to_file cfg (Body (map Chunk (pre @ [chunk]))) file =
        ((True, total pre + length chunk), Some (concat pre @ chunk))"
    by (simp add: http_get_to_file_def)
qed

theorem size_at_limit_admitted_witness:
  "fst (snd (handle_message sample_cfg (sample_env\<lparr>written := [''clip.mp4'' \<mapsto> 52428800]\<rparr>)
       sample_update empty_world)) =
     [SendChatAction 5 None, MkTemp ''/tmp/tmpa1'', Head ''https://youtu.be/abc123'',
      Extract ''https://youtu.be/abc123'' ''/tmp/tmpa1'',
      ReplyVideo (''/tmp/tmpa1'', ''clip.mp4'') None, RmTemp ''/tmp/tmpa1'']
   \<and> http_get_to_file (sample_cfg\<lparr>MAX_SIZE_MB := 1\<rparr>)
       (Body (map Chunk (replicate 63 (replicate 16384 (0::nat)) @ [replicate 16384 0]))) None =
     ((True, 1048576), Some (concat (replicate 63 (replicate 16384 0)) @ replicate 16384 0))"
proof -
  let ?ev = "sample_env\<lparr>written := [''clip.mp4'' \<mapsto> 52428800]\<rparr>"
  have dl: "download ?ev ''https://youtu.be/abc123'' (tmp_name ?ev) (scratch_world ?ev empty_world) =
              (Some ((''/tmp/tmpa1'', ''clip.mp4''), 52428800),
               backend_run ?ev ''/tmp/tmpa1'' (scratch_world ?ev empty_world))"
    by (rule sample_download_env) (simp_all add: sample_env_def)
  have sz: "int 52428800 = MAX_SIZE_MB sample_cfg * 1024 * 1024"
    by (simp add: sample_cfg_def)
  have one: "handle_message sample_cfg ?ev sample_update empty_world =
        (fst (deliver ?ev (''/tmp/tmpa1'', ''clip.mp4'')),
         [SendChatAction 5 (chat_action_raises ?ev), MkTemp (tmp_name ?ev), Head ''https://youtu.be/abc123'',
          Extract ''https://youtu.be/abc123'' (tmp_name ?ev)] @ snd (deliver ?ev (''/tmp/tmpa1'', ''clip.mp4''))
            @ [RmTemp (tmp_name ?ev)],
         rmtree (tmp_name ?ev) (backend_run ?ev ''/tmp/tmpa1'' (scratch_world ?ev empty_world)))"
    using size_at_limit_admitted [THEN conjunct1, rule_format, THEN conjunct1, of sample_cfg sample_update 5
        "''https://youtu.be/abc123''" ?ev empty_world "(''/tmp/tmpa1'', ''clip.mp4'')" 52428800
        "backend_run ?ev ''/tmp/tmpa1'' (scratch_world ?ev empty_world)"]
      sample_accepted dl sz by blast
  have two: "http_get_to_file (sample_cfg\<lparr>MAX_SIZE_MB := 1\<rparr>)
       (Body (map Chunk (replicate 63 (replicate 16384 (0::nat)) @ [replicate 16384 0]))) None =
     ((True, total (replicate 63 (replicate 16384 (0::nat))) + length (replicate 16384 (0::nat))),
      Some (concat (replicate 63 (replicate 16384 0)) @ replicate 16384 0))"
    by (rule size_at_limit_admitted [THEN conjunct2, rule_format])
       (simp add: total_replicate sample_cfg_def)
  show ?thesis
    using one two by (simp add: deliver_cases sample_env_def total_replicate)
qed

section \<open>The domain gate\<close>

text \<open>
  What the two tests decide: \<open>host_allowed\<close>, the test inside \<open>host_matches\<close>, holds of a
  host that is an allow-list entry or ends with a dot and an entry; the loop in the handler
  leaves by \<open>break\<close> as soon as an entry occurs anywhere in the lower-cased URL.
\<close>

lemma starts_with_iff: "starts_with s p \<longleftrightarrow> (\<exists>r. s = p @ r)"
  by (induction s p rule: starts_with.induct) auto

lemma ends_with_iff: "ends_with s suf \<longleftrightarrow> (\<exists>p. s = p @ suf)"
proof -
  have "(\<exists>r. rev s = rev suf @ r) \<longleftrightarrow> (\<exists>p. s = p @ suf)"
  proof
    assume "\<exists>r. rev s = rev suf @ r"
    then obtain r where "rev s = rev suf @ r" by blast
    then have "rev (rev s) = rev (rev suf @ r)" by simp
    then have "s = rev r @ suf" by simp
    then show "\<exists>p. s = p @ suf" by blast
  next
    assume "\<exists>p. s = p @ suf"
    then obtain p where "s = p @ suf" by blast
    then have "rev s = rev suf @ rev p" by simp
    then show "\<exists>r. rev s = rev suf @ r" by blast
  qed
  then show ?thesis by (simp add: ends_with_def starts_with_iff)
qed

lemma lower_domains: "map lower VIDEO_DOMAINS = VIDEO_DOMAINS"
  by code_simp

lemma host_allowed_exact_or_dot_suffix:
  "host_allowed h \<longleftrightarrow> (\<exists>d \<in> set VIDEO_DOMAINS. h = d \<or> (\<exists>p. h = p @ ''.'' @ d))"
  unfolding host_allowed_def lower_domains list_ex_iff ends_with_iff by simp

lemma contains_iff: "contains s d \<longleftrightarrow> (\<exists>p r. s = p @ d @ r)"
proof (induction s)
  case Nil
  show ?case by auto
next
  case (Cons c s)
  have "(\<exists>p r. c # s = p @ d @ r) \<longleftrightarrow> (\<exists>r. c # s = d @ r) \<or> (\<exists>p r. s = p @ d @ r)"
  proof
    assume "\<exists>p r. c # s = p @ d @ r"
    then obtain p r where e: "c # s = p @ d @ r" by blast
    show "(\<exists>r. c # s = d @ r) \<or> (\<exists>p r. s = p @ d @ r)"
    proof (cases p)
      case Nil
      with e show ?thesis by auto
    next
      case (Cons a p')
      with e have "s = p' @ d @ r" by simp
      then show ?thesis by blast
    qed
  next
    assume "(\<exists>r. c # s = d @ r) \<or> (\<exists>p r. s = p @ d @ r)"
    then show "\<exists>p r. c # s = p @ d @ r"
    proof
      assume "\<exists>r. c # s = d @ r"
      then obtain r where "c # s = [] @ d @ r" by auto
      then show ?thesis by blast
    next
      assume "\<exists>p r. s = p @ d @ r"
      then obtain p r where "c # s = (c # p) @ d @ r" by auto
      then show ?thesis by blast
    qed
  qed
  then show ?case using Cons.IH by (simp add: starts_with_iff)
qed

lemma domain_loop_iff:
  "domain_loop ds url \<longleftrightarrow> (\<exists>d \<in> set ds. \<exists>p r. lower url = p @ d @ r)"
  by (induction ds) (auto simp add: contains_iff)

text \<open>
  Claim C1 does not hold of the program. The handler never calls \<open>host_matches\<close>; its gate
  is the loop. For the message \<open>https://notyoutube.com/watch?v=1\<close> from a whitelisted
  chat the loop leaves by \<open>break\<close> (\<open>youtube.com\<close> occurs in the URL), the handler runs
  the backend on the URL and sends the video, while \<open>host_matches\<close> rejects the host
  \<open>notyoutube.com\<close>. In the same way the loop accepts \<open>https://example.com/?ref=youtube.com\<close>,
  where the entry occurs in the query only.
\<close>

theorem gate_admits_other_hosts:
  "pick_first_url ''https://notyoutube.com/watch?v=1'' = Some ''https://notyoutube.com/watch?v=1''
   \<and> domain_loop VIDEO_DOMAINS ''https://notyoutube.com/watch?v=1''
   \<and> host_allowed ''notyoutube.com'' = False
   \<and> host_matches (\<lambda>url. Some ''notyoutube.com'') ''https://notyoutube.com/watch?v=1'' = False
   \<and> fst (snd (handle_message sample_cfg sample_env
             (sample_update\<lparr>msg_text := Some ''https://notyoutube.com/watch?v=1''\<rparr>) empty_world)) =
       [SendChatAction 5 None, MkTemp ''/tmp/tmpa1'', Head ''https://notyoutube.com/watch?v=1'',
        Extract ''https://notyoutube.com/watch?v=1'' ''/tmp/tmpa1'',
        ReplyVideo (''/tmp/tmpa1'', ''clip.mp4'') None, RmTemp ''/tmp/tmpa1'']
   \<and> domain_loop VIDEO_DOMAINS ''https://example.com/?ref=youtube.com''
   \<and> host_matches (\<lambda>url. Some ''example.com'') ''https://example.com/?ref=youtube.com'' = False"
  by code_simp

end
